theory Spec2Isabelle
  imports Main "HOL-Library.Word" "HOL-Library.Sublist"
begin

text \<open>
  A model of the logging library jellog. The repository holds several revisions of some
  of its files; the model follows the latest: the Logger that has \<open>Copy\<close> and takes
  its handlers from \<open>Options.Handlers\<close>, whose \<open>AddHandler\<close> files a handler added
  for \<open>LvAll\<close> under \<open>minPossibleSeverity()\<close>, with \<open>Level\<close> a struct of a name
  and a severity. \<open>Output\<close>, \<open>InsertBreak\<close>, \<open>HandlersForLevel\<close> and
  \<open>CreateEvent\<close> of the Logger, the two handlers and the formatter are the same in
  every revision, apart from the names \<open>Severity\<close> and \<open>Priority\<close>.
\<close>

section \<open>Go data as HOL data\<close>

text \<open>
  Go's \<open>int\<close> is a 64-bit two's complement integer on the platforms jellog targets;
  comparisons of severities are signed (\<open><=s\<close>, \<open><s\<close>). A Go \<open>string\<close> is a byte
  sequence, here a \<open>string\<close> (a list of 8-bit characters).
\<close>

type_synonym goint = "64 word"

definition MaxInt :: goint where
  "MaxInt = 0x7FFFFFFFFFFFFFFF"

definition MinInt :: goint where
  "MinInt = 0x8000000000000000"

text \<open>
  Reading a Go map of slices at a key: the stored slice, or the nil (empty) slice when the
  key is absent.
\<close>

definition mapIndex :: "('k \<rightharpoonup> 'a list) \<Rightarrow> 'k \<Rightarrow> 'a list" where
  "mapIndex m k = (case m k of None \<Rightarrow> [] | Some xs \<Rightarrow> xs)"

text \<open>
  \<open>for k := range m\<close> visits every key of the map once, in an order Go leaves
  unspecified. The functions below take the order of each such loop as a list of keys;
  \<open>range_order m ks\<close> says that \<open>ks\<close> is one of the orders Go may choose for \<open>m\<close>.
\<close>

definition range_order :: "('k \<rightharpoonup> 'a) \<Rightarrow> 'k list \<Rightarrow> bool" where
  "range_order m ks \<longleftrightarrow> distinct ks \<and> set ks = dom m"

section \<open>Levels\<close>

record Level =
  Name :: string
  Severity :: goint

definition LvTrace :: Level where
  "LvTrace = \<lparr>Name = ''TRACE'', Severity = - 200\<rparr>"

definition LvDebug :: Level where
  "LvDebug = \<lparr>Name = ''DEBUG'', Severity = - 100\<rparr>"

definition LvInfo :: Level where
  "LvInfo = \<lparr>Name = ''INFO'', Severity = 0\<rparr>"

definition LvWarn :: Level where
  "LvWarn = \<lparr>Name = ''WARN'', Severity = 100\<rparr>"

definition LvError :: Level where
  "LvError = \<lparr>Name = ''ERROR'', Severity = 200\<rparr>"

definition LvFatal :: Level where
  "LvFatal = \<lparr>Name = ''FATAL'', Severity = 300\<rparr>"

definition LvAll :: Level where
  "LvAll = \<lparr>Name = ''ALL'', Severity = MaxInt\<rparr>"

definition minPossibleSeverity :: goint where
  "minPossibleSeverity = MinInt"

section \<open>Errors\<close>

text \<open>
  A Go \<open>error\<close> value. \<open>errors.New\<close> and \<open>fmt.Errorf\<close> without \<open>%w\<close> give an
  \<open>errorString\<close>; \<open>fmt.Errorf\<close> with \<open>%w\<close> gives a \<open>wrapError\<close> holding the
  formatted message and the wrapped error. \<open>Error\<close> is the method \<open>Error()\<close>.
\<close>

datatype error = errorString string | wrapError string error

fun Error :: "error \<Rightarrow> string" where
  "Error (errorString s) = s"
| "Error (wrapError s e) = s"

section \<open>Events, formatters, handlers\<close>

text \<open>
  A \<open>time.Time\<close> as \<open>formatTime\<close> reads it: the calendar and clock fields that
  \<open>Date()\<close>, \<open>Clock()\<close> and \<open>Nanosecond()\<close> return, in the local zone and after
  \<open>UTC()\<close>.
\<close>

record Clock =
  year :: int
  month :: int
  day :: int
  hour :: int
  minute :: int
  second :: int
  nanosecond :: int

record Time =
  localClock :: Clock
  utcClock :: Clock

record 'e Event =
  Component :: string
  Time :: Time
  Level :: Level
  Message :: 'e

text \<open>The interface \<open>Formatter[E]\<close>: its two methods.\<close>

record 'e Formatter =
  Format :: "'e Event \<Rightarrow> string"
  Break :: string

text \<open>
  The interface \<open>Handler[E]\<close>. \<open>Output\<close> and \<open>InsertBreak\<close> write to a sink, so they
  take the state \<open>'w\<close> of the outside world and return it updated, with the error
  (\<open>None\<close> is \<open>nil\<close>). A Logger holds handlers by reference: \<open>'h\<close> is the type of
  references, compared with \<open>=\<close> as Go compares interface values holding pointers, and
  the method table of a reference is looked up in \<open>'h \<Rightarrow> ('e, 'w) Handler\<close>.
\<close>

record ('e, 'w) Handler =
  Output :: "goint \<Rightarrow> 'e Event \<Rightarrow> 'w \<Rightarrow> error option \<times> 'w"
  InsertBreak :: "'w \<Rightarrow> error option \<times> 'w"

section \<open>Options\<close>

record 'e HandlerOptions =
  Component :: string
  Formatter :: "'e Formatter option"

text \<open>
  \<open>Options[E]\<close> embeds \<open>HandlerOptions[E]\<close>. \<open>'v\<close> stands for the values of Go's
  \<open>any\<close> that a converter receives. A nil function, interface or map is \<open>None\<close>,
  \<open>None\<close> and the empty map.
\<close>

record ('v, 'e, 'h) Options = "'e HandlerOptions" +
  Converter :: "('v \<Rightarrow> 'e) option"
  Handlers :: "Level \<rightharpoonup> 'h list"

definition Defaults :: "('v, 'e, 'h) Options" where
  "Defaults = \<lparr>Component = [], Formatter = None, Converter = None, Handlers = Map.empty\<rparr>"

section \<open>Logger\<close>

text \<open>
  The mutex \<open>mtx\<close> only serialises access to \<open>h\<close> and is left out: every function here
  runs alone on the registry it is given.
\<close>

record ('v, 'e, 'h) Logger =
  opts :: "('v, 'e, 'h) Options"
  useMtxForLogging :: bool
  h :: "goint \<rightharpoonup> 'h list"

text \<open>
  What \<open>New\<close> finds out about its type parameter \<open>E\<close> at run time: the zero value
  \<open>var empty E\<close>, and whether \<open>E\<close> is \<open>string\<close>; if it is, \<open>isString\<close> holds the
  conversion \<open>any(s).(E)\<close> of a string to \<open>E\<close>. \<open>Sprintf_v\<close> is
  \<open>fmt.Sprintf("%v", v)\<close>.
\<close>

record ('v, 'e) TypeParam =
  emptyE :: 'e
  isString :: "(string \<Rightarrow> 'e) option"
  Sprintf_v :: "'v \<Rightarrow> string"

definition AddHandler :: "Level \<Rightarrow> 'h \<Rightarrow> ('v, 'e, 'h) Logger \<Rightarrow> ('v, 'e, 'h) Logger" where
  "AddHandler lv out lg =
     (let sev = (if Severity lv = Severity LvAll then minPossibleSeverity else Severity lv);
          currentList = (case h lg sev of None \<Rightarrow> [] | Some l \<Rightarrow> l)
      in lg\<lparr>h := (h lg)(sev \<mapsto> currentList @ [out])\<rparr>)"

definition New :: "('v, 'e) TypeParam \<Rightarrow> Level list \<Rightarrow> ('v, 'e, 'h) Options \<Rightarrow> ('v, 'e, 'h) Logger" where
  "New E ks opts' =
     (let opts1 =
            (if Converter opts' = None then
               (case isString E of
                  Some toE \<Rightarrow> opts'\<lparr>Converter := Some (\<lambda>v. toE (Sprintf_v E v))\<rparr>
                | None \<Rightarrow> opts'\<lparr>Converter := Some (\<lambda>v. emptyE E)\<rparr>)
             else opts');
          logger = \<lparr>opts = opts1, useMtxForLogging = True, h = Map.empty\<rparr>
      in if dom (Handlers opts1) \<noteq> {} then
           foldl (\<lambda>lg lv. foldl (\<lambda>lg x. AddHandler lv x lg) lg (mapIndex (Handlers opts1) lv))
             logger ks
         else logger)"

definition HandlersForLevel :: "goint list \<Rightarrow> ('v, 'e, 'h) Logger \<Rightarrow> Level \<Rightarrow> 'h list" where
  "HandlersForLevel ks lg lv =
     foldl (\<lambda>outputs minLevel.
              if minLevel <=s Severity lv then outputs @ mapIndex (h lg) minLevel else outputs)
       [] ks"

text \<open>
  The loops of \<open>Logger.InsertBreak\<close> and \<open>Logger.Output\<close> over \<open>dispatch\<close>: every
  handler is called in turn on the world the previous one left, and \<open>fullErr\<close> grows by
  each non-nil error. \<open>H\<close> gives the methods of each handler reference.
\<close>

fun insertBreakLoop ::
  "('h \<Rightarrow> ('e, 'w) Handler) \<Rightarrow> 'h list \<Rightarrow> error option \<Rightarrow> 'w \<Rightarrow> error option \<times> 'w" where
  "insertBreakLoop H [] fullErr w = (fullErr, w)"
| "insertBreakLoop H (x # dispatch) fullErr w =
     (case InsertBreak (H x) w of
        (None, w') \<Rightarrow> insertBreakLoop H dispatch fullErr w'
      | (Some err, w') \<Rightarrow>
          (case fullErr of
             Some f \<Rightarrow>
               insertBreakLoop H dispatch
                 (Some (wrapError (Error f @ [CHR 0x0A] @ ''hander: '' @ Error err) err)) w'
           | None \<Rightarrow>
               insertBreakLoop H dispatch (Some (wrapError (''handler: '' @ Error err) err)) w'))"

definition Logger_InsertBreak ::
  "('h \<Rightarrow> ('e, 'w) Handler) \<Rightarrow> goint list \<Rightarrow> ('v, 'e, 'h) Logger \<Rightarrow> Level \<Rightarrow> 'w
     \<Rightarrow> error option \<times> 'w" where
  "Logger_InsertBreak H ks lg lv w =
     (let dispatch = HandlersForLevel ks lg lv in insertBreakLoop H dispatch None w)"

fun outputLoop ::
  "('h \<Rightarrow> ('e, 'w) Handler) \<Rightarrow> 'h list \<Rightarrow> goint \<Rightarrow> 'e Event \<Rightarrow> error option \<Rightarrow> 'w
     \<Rightarrow> error option \<times> 'w" where
  "outputLoop H [] calldepth evt fullErr w = (fullErr, w)"
| "outputLoop H (x # dispatch) calldepth evt fullErr w =
     (case Output (H x) (calldepth + 1) evt w of
        (None, w') \<Rightarrow> outputLoop H dispatch calldepth evt fullErr w'
      | (Some err, w') \<Rightarrow>
          (case fullErr of
             Some f \<Rightarrow>
               outputLoop H dispatch calldepth evt
                 (Some (wrapError (Error f @ [CHR 0x0A] @ ''hander: '' @ Error err) err)) w'
           | None \<Rightarrow>
               outputLoop H dispatch calldepth evt
                 (Some (wrapError (''handler: '' @ Error err) err)) w'))"

definition Logger_Output ::
  "('h \<Rightarrow> ('e, 'w) Handler) \<Rightarrow> goint list \<Rightarrow> ('v, 'e, 'h) Logger \<Rightarrow> goint \<Rightarrow> 'e Event \<Rightarrow> 'w
     \<Rightarrow> error option \<times> 'w" where
  "Logger_Output H ks lg calldepth evt w =
     (let evt1 =
            (if Component (Logger.opts lg) \<noteq> [] then
               (let evt' = (if Event.Component evt \<noteq> []
                            then evt\<lparr>Event.Component := Event.Component evt @ ''.''\<rparr> else evt)
                in evt'\<lparr>Event.Component := Event.Component evt' @ Component (Logger.opts lg)\<rparr>)
             else evt);
          dispatch = HandlersForLevel ks lg (Level evt1)
      in outputLoop H dispatch calldepth evt1 None w)"

text \<open>
  \<open>CreateEvent\<close>: \<open>now\<close> is the value of \<open>time.Now()\<close>, and \<open>assertE\<close> is the type
  assertion \<open>msg.(E)\<close>.
\<close>

definition CreateEvent ::
  "('v \<Rightarrow> 'e option) \<Rightarrow> Time \<Rightarrow> ('v, 'e, 'h) Logger \<Rightarrow> Level \<Rightarrow> 'v \<Rightarrow> 'e Event option" where
  "CreateEvent assertE now lg lv msg =
     (case assertE msg of
        Some typedMsg \<Rightarrow>
          Some \<lparr>Event.Component = [], Time = now, Level = lv, Message = typedMsg\<rparr>
      | None \<Rightarrow>
          (case Converter (Logger.opts lg) of
             None \<Rightarrow> None
           | Some conv \<Rightarrow>
               Some \<lparr>Event.Component = [], Time = now, Level = lv, Message = conv msg\<rparr>))"

section \<open>The line formatter\<close>

subsection \<open>What \<open>Format\<close> uses of Go's standard library\<close>

text \<open>Go's integer division truncates towards zero.\<close>

definition goDiv :: "int \<Rightarrow> int \<Rightarrow> int" where
  "goDiv a b = sgn a * sgn b * (\<bar>a\<bar> div \<bar>b\<bar>)"

text \<open>
  \<open>utf8.RuneCountInString\<close>, with its tables \<open>first\<close> and \<open>acceptRanges\<close>: the number
  of runes of a byte string, every byte that starts no well-formed encoding counting as one
  rune. \<open>runeSize c rest\<close> is the number of bytes the loop advances by at a byte \<open>c\<close>
  followed by the bytes \<open>rest\<close>.
\<close>

definition first :: "nat \<Rightarrow> nat" where
  "first c =
     (if c < 0x80 then 0xF0 else if c < 0xC2 then 0xF1 else if c < 0xE0 then 0x02
      else if c = 0xE0 then 0x13 else if c = 0xED then 0x23 else if c < 0xF0 then 0x03
      else if c = 0xF0 then 0x34 else if c < 0xF4 then 0x04 else if c = 0xF4 then 0x44
      else 0xF1)"

definition acceptRanges :: "nat \<Rightarrow> nat \<times> nat" where
  "acceptRanges n =
     (if n = 0 then (0x80, 0xBF) else if n = 1 then (0xA0, 0xBF) else if n = 2 then (0x80, 0x9F)
      else if n = 3 then (0x90, 0xBF) else if n = 4 then (0x80, 0x8F) else (0, 0))"

definition runeSize :: "nat \<Rightarrow> nat list \<Rightarrow> nat" where
  "runeSize c rest =
     (if c < 0x80 then 1
      else let x = first c in
        if x = 0xF1 then 1
        else let size = x mod 8 in
          if 1 + length rest < size then 1
          else let (lo, hi) = acceptRanges (x div 16) in
            if rest ! 0 < lo \<or> hi < rest ! 0 then 1
            else if size = 2 then 2
            else if rest ! 1 < 0x80 \<or> 0xBF < rest ! 1 then 1
            else if size = 3 then 3
            else if rest ! 2 < 0x80 \<or> 0xBF < rest ! 2 then 1
            else size)"

fun RuneCountInString :: "string \<Rightarrow> nat" where
  "RuneCountInString [] = 0"
| "RuneCountInString (c # cs) =
     Suc (RuneCountInString (drop (runeSize (of_char c) (map of_char cs) - 1) cs))"

text \<open>
  The verb \<open>%-5s\<close> of \<open>fmt.Sprintf\<close>: the string, then spaces up to a width of five
  runes; a string of five runes or more is written as it is.
\<close>

definition padRight :: "nat \<Rightarrow> string \<Rightarrow> string" where
  "padRight wid s = s @ replicate (wid - RuneCountInString s) (CHR '' '')"

text \<open>\<open>strings.HasSuffix\<close>.\<close>

definition HasSuffix :: "string \<Rightarrow> string \<Rightarrow> bool" where
  "HasSuffix s suf \<longleftrightarrow> length suf \<le> length s \<and> drop (length s - length suf) s = suf"

subsection \<open>\<open>itoa\<close> and \<open>formatTime\<close>\<close>

text \<open>
  \<open>itoa\<close> assembles the decimal digits from the right in a buffer of 20 bytes, which
  \<open>itoa_fits\<close> below shows to be enough for a 64-bit \<open>i\<close> and the widths used here;
  \<open>itoa_loop i wid b\<close> is the loop with \<open>b\<close> the bytes assembled so far. The conversion
  \<open>byte(...)\<close> keeps the low eight bits, as \<open>char_of\<close> does.
\<close>

function itoa_loop :: "int \<Rightarrow> int \<Rightarrow> string \<Rightarrow> string" where
  "itoa_loop i wid b =
     (if 10 \<le> i \<or> 1 < wid then
        (let q = goDiv i 10 in itoa_loop q (wid - 1) (char_of (48 + i - q * 10) # b))
      else char_of (48 + i) # b)"
  by pat_completeness auto
termination
proof (relation "measure (\<lambda>(i, wid, b). nat i + nat (wid - 1))")
  show "wf (measure (\<lambda>(i, wid, b). nat i + nat (wid - 1)))"
    by simp
next
  fix i wid :: int and b :: string and q :: int
  assume c: "10 \<le> i \<or> 1 < wid" and q: "q = goDiv i 10"
  have "nat q + nat (wid - 1 - 1) < nat i + nat (wid - 1)"
  proof (cases "10 \<le> i")
    case True
    then have "q = i div 10" using q by (simp add: goDiv_def)
    with True show ?thesis by simp
  next
    case False
    with c have w: "1 < wid" by simp
    have "nat q \<le> nat i"
    proof (cases "0 \<le> i")
      case True
      with False have "q = 0" using q by (simp add: goDiv_def)
      then show ?thesis by simp
    next
      case False
      then have "q = - (\<bar>i\<bar> div 10)" using q by (simp add: goDiv_def)
      then show ?thesis by simp
    qed
    with w show ?thesis by simp
  qed
  then show "((q, wid - 1, char_of (48 + i - q * 10) # b), (i, wid, b))
        \<in> measure (\<lambda>(i, wid, b). nat i + nat (wid - 1))"
    by simp
qed

declare itoa_loop.simps [simp del]

definition itoa :: "string \<Rightarrow> int \<Rightarrow> int \<Rightarrow> string" where
  "itoa buf i wid = buf @ itoa_loop i wid []"

definition formatTime :: "Time \<Rightarrow> bool \<Rightarrow> bool \<Rightarrow> string" where
  "formatTime t utc micros =
     (let c = (if utc then utcClock t else localClock t);
          buf = itoa [] (year c) 4;
          buf = buf @ ''/'';
          buf = itoa buf (month c) 2;
          buf = buf @ ''/'';
          buf = itoa buf (day c) 2;
          buf = buf @ '' '';
          buf = itoa buf (hour c) 2;
          buf = buf @ '':'';
          buf = itoa buf (minute c) 2;
          buf = buf @ '':'';
          buf = itoa buf (second c) 2
      in if micros then itoa (buf @ ''.'') (goDiv (nanosecond c) 1000) 6 else buf)"

subsection \<open>\<open>LineFormat\<close>\<close>

record LineFormat =
  UTC :: bool
  ShowMircoseconds :: bool

definition LineFormat_Format :: "LineFormat \<Rightarrow> string Event \<Rightarrow> string" where
  "LineFormat_Format lf evt =
     (let msg = Message evt;
          msg = (if \<not> HasSuffix msg [CHR 0x0A] then msg @ [CHR 0x0A] else msg);
          timeStr = formatTime (Time evt) (UTC lf) (ShowMircoseconds lf)
      in if Event.Component evt \<noteq> [] then
           timeStr @ '' '' @ padRight 5 (Name (Level evt)) @ '' ('' @ Event.Component evt
             @ '') '' @ msg
         else timeStr @ '' '' @ padRight 5 (Name (Level evt)) @ '' '' @ msg)"

definition LineFormat_Break :: "LineFormat \<Rightarrow> string" where
  "LineFormat_Break lf = [CHR 0x0A]"

definition defFormatter :: LineFormat where
  "defFormatter = \<lparr>UTC = False, ShowMircoseconds = False\<rparr>"

section \<open>The stderr and file handlers\<close>

text \<open>
  The sinks are outside the program: \<open>write\<close> stands for \<open>os.Stderr.Write\<close>, and
  \<open>fwrite fd\<close> for the write system call on the open file \<open>fd\<close>; each takes the
  bytes and the world and returns the error and the world after the write. The locks
  (\<open>mtxStderr\<close>, \<open>mtx\<close>) are left out.
\<close>

record StderrHandler =
  opts :: "string HandlerOptions"

definition NewStderrHandler :: "string HandlerOptions option \<Rightarrow> StderrHandler" where
  "NewStderrHandler opts' =
     (case opts' of
        None \<Rightarrow> \<lparr>opts = \<lparr>Component = [], Formatter = None\<rparr>\<rparr>
      | Some p \<Rightarrow> \<lparr>opts = p\<rparr>)"

definition StderrHandler_InsertBreak ::
  "(string \<Rightarrow> 'w \<Rightarrow> error option \<times> 'w) \<Rightarrow> StderrHandler \<Rightarrow> 'w \<Rightarrow> error option \<times> 'w" where
  "StderrHandler_InsertBreak write seh w =
     (let buf = (case Formatter (StderrHandler.opts seh) of
                   Some f \<Rightarrow> Break f
                 | None \<Rightarrow> LineFormat_Break defFormatter)
      in write buf w)"

definition StderrHandler_Output ::
  "(string \<Rightarrow> 'w \<Rightarrow> error option \<times> 'w) \<Rightarrow> StderrHandler \<Rightarrow> goint \<Rightarrow> string Event \<Rightarrow> 'w
     \<Rightarrow> error option \<times> 'w" where
  "StderrHandler_Output write seh calldepth evt w =
     (let evt1 =
            (if Component (StderrHandler.opts seh) \<noteq> [] then
               (let evt' = (if Event.Component evt \<noteq> []
                            then evt\<lparr>Event.Component := Event.Component evt @ ''.''\<rparr> else evt)
                in evt'\<lparr>Event.Component :=
                          Event.Component evt' @ Component (StderrHandler.opts seh)\<rparr>)
             else evt);
          buf = (case Formatter (StderrHandler.opts seh) of
                   Some f \<Rightarrow> Format f evt1
                 | None \<Rightarrow> LineFormat_Format defFormatter evt1)
      in write buf w)"

text \<open>
  A \<open>FileHandler\<close>: \<open>f\<close> is the pointer to the open file, \<open>None\<close> when nil, as in the
  zero value \<open>FileHandler{}\<close> that \<open>OpenFile\<close> returns beside its error.
\<close>

record 'fd FileHandler =
  opts :: "string HandlerOptions"
  f :: "'fd option"

definition zeroFileHandler :: "'fd FileHandler" where
  "zeroFileHandler = \<lparr>opts = \<lparr>Component = [], Formatter = None\<rparr>, f = None\<rparr>"

text \<open>
  \<open>OpenFile\<close>: \<open>openf\<close> stands for \<open>os.OpenFile\<close> with the flags
  \<open>O_CREATE|O_APPEND|O_WRONLY\<close> and mode 0664.
\<close>

definition OpenFile ::
  "(string \<Rightarrow> 'w \<Rightarrow> (error + 'fd) \<times> 'w) \<Rightarrow> string \<Rightarrow> string HandlerOptions option \<Rightarrow> 'w
     \<Rightarrow> ('fd FileHandler \<times> error option) \<times> 'w" where
  "OpenFile openf filename opts' w =
     (let p = (case opts' of None \<Rightarrow> \<lparr>Component = [], Formatter = None\<rparr> | Some p \<Rightarrow> p)
      in case openf filename w of
           (Inl err, w') \<Rightarrow>
             ((zeroFileHandler, Some (wrapError (''cannot open file: '' @ Error err) err)), w')
         | (Inr fd, w') \<Rightarrow> ((\<lparr>opts = p, f = Some fd\<rparr>, None), w'))"

text \<open>
  \<open>(*os.File).Write\<close>: on a nil receiver it returns \<open>os.ErrInvalid\<close> without writing;
  otherwise it is the write on the open file.
\<close>

definition ErrInvalid :: error where
  "ErrInvalid = errorString ''invalid argument''"

definition File_Write ::
  "('fd \<Rightarrow> string \<Rightarrow> 'w \<Rightarrow> error option \<times> 'w) \<Rightarrow> 'fd option \<Rightarrow> string \<Rightarrow> 'w
     \<Rightarrow> error option \<times> 'w" where
  "File_Write fwrite file buf w =
     (case file of None \<Rightarrow> (Some ErrInvalid, w) | Some fd \<Rightarrow> fwrite fd buf w)"

definition FileHandler_InsertBreak ::
  "('fd \<Rightarrow> string \<Rightarrow> 'w \<Rightarrow> error option \<times> 'w) \<Rightarrow> 'fd FileHandler \<Rightarrow> 'w \<Rightarrow> error option \<times> 'w" where
  "FileHandler_InsertBreak fwrite fh w =
     (let buf = (case Formatter (FileHandler.opts fh) of
                   Some fm \<Rightarrow> Break fm
                 | None \<Rightarrow> LineFormat_Break defFormatter)
      in File_Write fwrite (f fh) buf w)"

definition FileHandler_Output ::
  "('fd \<Rightarrow> string \<Rightarrow> 'w \<Rightarrow> error option \<times> 'w) \<Rightarrow> 'fd FileHandler \<Rightarrow> goint \<Rightarrow> string Event \<Rightarrow> 'w
     \<Rightarrow> error option \<times> 'w" where
  "FileHandler_Output fwrite fh calldepth evt w =
     (if f fh = None then
        (Some (errorString ''Output() called on FileHandler created without OpenFile''), w)
      else
        (let evt1 =
               (if Component (FileHandler.opts fh) \<noteq> [] then
                  (let evt' = (if Event.Component evt \<noteq> []
                               then evt\<lparr>Event.Component := Event.Component evt @ ''.''\<rparr>
                               else evt)
                   in evt'\<lparr>Event.Component :=
                             Event.Component evt' @ Component (FileHandler.opts fh)\<rparr>)
                else evt);
             buf = (case Formatter (FileHandler.opts fh) of
                      Some fm \<Rightarrow> Format fm evt1
                    | None \<Rightarrow> LineFormat_Format defFormatter evt1)
         in File_Write fwrite (f fh) buf w))"

text \<open>The two handlers as values of the interface \<open>Handler[string]\<close>.\<close>

definition StderrHandler_Handler ::
  "(string \<Rightarrow> 'w \<Rightarrow> error option \<times> 'w) \<Rightarrow> StderrHandler \<Rightarrow> (string, 'w) Handler" where
  "StderrHandler_Handler write seh =
     \<lparr>Output = StderrHandler_Output write seh, InsertBreak = StderrHandler_InsertBreak write seh\<rparr>"

definition FileHandler_Handler ::
  "('fd \<Rightarrow> string \<Rightarrow> 'w \<Rightarrow> error option \<times> 'w) \<Rightarrow> 'fd FileHandler \<Rightarrow> (string, 'w) Handler" where
  "FileHandler_Handler fwrite fh =
     \<lparr>Output = FileHandler_Output fwrite fh, InsertBreak = FileHandler_InsertBreak fwrite fh\<rparr>"

section \<open>\<open>Logger.Copy\<close>\<close>

text \<open>
  The level under which \<open>Copy\<close> files a handler of the bucket \<open>lv\<close> of the current
  registry (the chain of comparisons inside its first loop).
\<close>

definition bucketLevel :: "goint \<Rightarrow> Level" where
  "bucketLevel lv =
     (if lv = minPossibleSeverity then LvAll
      else if lv = Severity LvFatal then LvFatal
      else if lv = Severity LvError then LvError
      else if lv = Severity LvWarn then LvWarn
      else if lv = Severity LvInfo then LvInfo
      else if lv = Severity LvDebug then LvDebug
      else if lv = Severity LvTrace then LvTrace
      else \<lparr>Name = [], Severity = lv\<rparr>)"

text \<open>
  The options that \<open>Copy\<close> builds and hands to \<open>New\<close>. \<open>ks1\<close> is the order of the loop
  over \<open>lg.h\<close>, \<open>ks2\<close> and \<open>ks3\<close> the orders of the two loops over \<open>opts.Handlers\<close>. A
  \<open>handLv\<close> is the pair of its fields \<open>h\<close> and \<open>lv\<close>.
\<close>

definition mergedOptions ::
  "goint list \<Rightarrow> Level list \<Rightarrow> Level list \<Rightarrow> ('v, 'e, 'h) Logger \<Rightarrow> ('v, 'e, 'h) Options
     \<Rightarrow> ('v, 'e, 'h) Options" where
  "mergedOptions ks1 ks2 ks3 lg opts' =
     (let mergedComponent =
            (if Component opts' = [] then Component (Logger.opts lg) else Component opts');
          mergedFormatter =
            (if Formatter opts' = None then Formatter (Logger.opts lg) else Formatter opts');
          mergedConverter =
            (if Converter opts' = None then Converter (Logger.opts lg) else Converter opts');
          current = concat (map (\<lambda>lv. map (\<lambda>x. (x, lv)) (mapIndex (h lg) lv)) ks1);
          optAdded = concat (map (\<lambda>lv. mapIndex (Handlers opts') lv) ks2);
          mergedHandlers =
            foldl (\<lambda>m (entry_h, entry_lv).
                     if entry_h \<in> set optAdded then m
                     else (let lv = bucketLevel entry_lv
                           in m(lv \<mapsto> mapIndex m lv @ [entry_h])))
              Map.empty current;
          mergedHandlers =
            foldl (\<lambda>m lv. m(lv \<mapsto> mapIndex m lv @ mapIndex (Handlers opts') lv))
              mergedHandlers ks3
      in \<lparr>Component = mergedComponent, Formatter = mergedFormatter,
          Converter = mergedConverter,
          Handlers = (if dom mergedHandlers \<noteq> {} then mergedHandlers else Map.empty)\<rparr>)"

definition Copy ::
  "('v, 'e) TypeParam \<Rightarrow> goint list \<Rightarrow> Level list \<Rightarrow> Level list \<Rightarrow> Level list
     \<Rightarrow> ('v, 'e, 'h) Logger \<Rightarrow> ('v, 'e, 'h) Options \<Rightarrow> ('v, 'e, 'h) Logger" where
  "Copy E ks1 ks2 ks3 ks4 lg opts' = New E ks4 (mergedOptions ks1 ks2 ks3 lg opts')"

section \<open>Notions used in the statements\<close>

text \<open>The key of the bucket under which \<open>AddHandler\<close> files a handler added for \<open>lv\<close>.\<close>

definition sevKey :: "Level \<Rightarrow> goint" where
  "sevKey lv = (if Severity lv = Severity LvAll then minPossibleSeverity else Severity lv)"

text \<open>The options \<open>New\<close> stores in the logger: the given ones, with the default converter
  if none was given.\<close>

definition defaultConverter ::
  "('v, 'e) TypeParam \<Rightarrow> ('v, 'e, 'h) Options \<Rightarrow> ('v, 'e, 'h) Options" where
  "defaultConverter E opts' =
     (if Converter opts' = None then
        (case isString E of
           Some toE \<Rightarrow> opts'\<lparr>Converter := Some (\<lambda>v. toE (Sprintf_v E v))\<rparr>
         | None \<Rightarrow> opts'\<lparr>Converter := Some (\<lambda>v. emptyE E)\<rparr>)
      else opts')"

text \<open>
  \<open>registered lv x lg\<close>: the handler \<open>x\<close> was registered on \<open>lg\<close> for the level \<open>lv\<close>, by
  \<open>AddHandler\<close> or through the options given to \<open>New\<close>, and any number of handlers were
  added afterwards. \<open>registered_only lv x lg\<close>: moreover this is the only registration of
  \<open>x\<close> on \<open>lg\<close>.
\<close>

inductive registered :: "Level \<Rightarrow> 'h \<Rightarrow> ('v, 'e, 'h) Logger \<Rightarrow> bool" where
  reg_add: "registered lv x (AddHandler lv x lg)"
| reg_keep: "registered lv x lg \<Longrightarrow> registered lv x (AddHandler lv' y lg)"
| reg_new: "x \<in> set (mapIndex (Handlers opts') lv) \<Longrightarrow> range_order (Handlers opts') ks
     \<Longrightarrow> registered lv x (New E ks opts')"

inductive registered_only :: "Level \<Rightarrow> 'h \<Rightarrow> ('v, 'e, 'h) Logger \<Rightarrow> bool" where
  only_add: "(\<And>k. x \<notin> set (mapIndex (h lg) k)) \<Longrightarrow> registered_only lv x (AddHandler lv x lg)"
| only_keep: "registered_only lv x lg \<Longrightarrow> y \<noteq> x
     \<Longrightarrow> registered_only lv x (AddHandler lv' y lg)"

text \<open>
  Running a list of handler calls one after the other, whatever each returns: the errors
  in the order of the calls, and the world after the last one. This is dispatch as
  the specification words it, to compare the loops of the Logger with.
\<close>

fun runAll :: "('w \<Rightarrow> error option \<times> 'w) list \<Rightarrow> 'w \<Rightarrow> error option list \<times> 'w" where
  "runAll [] w = ([], w)"
| "runAll (c # cs) w =
     (case c w of (r, w') \<Rightarrow> (case runAll cs w' of (rs, w'') \<Rightarrow> (r # rs, w'')))"

text \<open>The non-nil errors among the results, and the message of their combination.\<close>

fun nonNil :: "error option list \<Rightarrow> error list" where
  "nonNil [] = []"
| "nonNil (None # rs) = nonNil rs"
| "nonNil (Some e # rs) = e # nonNil rs"

fun joinedMessage :: "error list \<Rightarrow> string" where
  "joinedMessage [] = []"
| "joinedMessage (e # es) =
     ''handler: '' @ Error e @ concat (map (\<lambda>e'. [CHR 0x0A] @ ''hander: '' @ Error e') es)"

text \<open>The step of both loops on \<open>fullErr\<close>, given the result of one handler.\<close>

definition joinErr :: "error option \<Rightarrow> error option \<Rightarrow> error option" where
  "joinErr fullErr r =
     (case r of
        None \<Rightarrow> fullErr
      | Some err \<Rightarrow>
          (case fullErr of
             Some e \<Rightarrow> Some (wrapError (Error e @ [CHR 0x0A] @ ''hander: '' @ Error err) err)
           | None \<Rightarrow> Some (wrapError (''handler: '' @ Error err) err)))"

text \<open>The calls that \<open>Logger.Output\<close> and \<open>Logger.InsertBreak\<close> make for a list of
  handlers, run by \<open>runAll\<close>.\<close>

definition outputResults ::
  "('h \<Rightarrow> ('e, 'w) Handler) \<Rightarrow> 'h list \<Rightarrow> goint \<Rightarrow> 'e Event \<Rightarrow> 'w \<Rightarrow> error option list \<times> 'w" where
  "outputResults H dispatch calldepth evt w =
     runAll (map (\<lambda>x. Output (H x) (calldepth + 1) evt) dispatch) w"

definition breakResults ::
  "('h \<Rightarrow> ('e, 'w) Handler) \<Rightarrow> 'h list \<Rightarrow> 'w \<Rightarrow> error option list \<times> 'w" where
  "breakResults H dispatch w = runAll (map (\<lambda>x. InsertBreak (H x)) dispatch) w"

text \<open>
  The event after a handler or logger with the configured component \<open>c\<close> has chained its
  component to it.
\<close>

definition withComponent :: "string \<Rightarrow> 'e Event \<Rightarrow> 'e Event" where
  "withComponent c evt =
     (if c = [] then evt
      else evt\<lparr>Event.Component :=
                 (if Event.Component evt = [] then c else Event.Component evt @ ''.'' @ c)\<rparr>)"

text \<open>The bytes a handler with the options \<open>p\<close> writes for an event: those of its
  formatter, or of \<open>defFormatter\<close> when it has none.\<close>

definition formatWith :: "string HandlerOptions \<Rightarrow> string Event \<Rightarrow> string" where
  "formatWith p evt =
     (case Formatter p of Some fm \<Rightarrow> Format fm evt | None \<Rightarrow> LineFormat_Format defFormatter evt)"

text \<open>
  The parts of a formatted line: \<open>linePrefix\<close> is the time stamp and the level field
  with the space after each, \<open>lineMessage\<close> the message with the newline that
  \<open>Format\<close> adds when there is none.
\<close>

definition linePrefix :: "LineFormat \<Rightarrow> string Event \<Rightarrow> string" where
  "linePrefix lf evt =
     formatTime (Time evt) (UTC lf) (ShowMircoseconds lf) @ '' '' @ padRight 5 (Name (Level evt))
       @ '' ''"

definition lineMessage :: "string \<Rightarrow> string" where
  "lineMessage msg = (if HasSuffix msg [CHR 0x0A] then msg else msg @ [CHR 0x0A])"

text \<open>The number of positions of a string at which a pattern occurs.\<close>

fun count_occ :: "string \<Rightarrow> string \<Rightarrow> nat" where
  "count_occ p [] = (if p = [] then 1 else 0)"
| "count_occ p (c # cs) = (if prefix p (c # cs) then 1 else 0) + count_occ p cs"

text \<open>The decimal digits, and the times all of whose fields are at least zero.\<close>

definition decimalDigits :: "char set" where
  "decimalDigits = set ''0123456789''"

definition nonNegativeClock :: "Clock \<Rightarrow> bool" where
  "nonNegativeClock c \<longleftrightarrow>
     0 \<le> year c \<and> 0 \<le> month c \<and> 0 \<le> day c \<and> 0 \<le> hour c \<and> 0 \<le> minute c \<and> 0 \<le> second c \<and>
     0 \<le> nanosecond c"

text \<open>The last part of \<open>runeSize\<close>, for a leading byte of size \<open>sz\<close> whose second
  byte must lie between \<open>lo\<close> and \<open>hi\<close>.\<close>

definition tailSize :: "nat \<Rightarrow> nat \<Rightarrow> nat \<Rightarrow> nat list \<Rightarrow> nat" where
  "tailSize sz lo hi rest =
     (if 1 + length rest < sz then 1
      else if rest ! 0 < lo \<or> hi < rest ! 0 then 1
      else if sz = 2 then 2
      else if rest ! 1 < 0x80 \<or> 0xBF < rest ! 1 then 1
      else if sz = 3 then 3
      else if rest ! 2 < 0x80 \<or> 0xBF < rest ! 2 then 1
      else sz)"

text \<open>
  The Loggers that the package can build: those \<open>New\<close> returns (\<open>Copy\<close> returns
  one of them) and those with handlers added by \<open>AddHandler\<close>. In their registries no
  bucket is empty and no bucket has the severity of \<open>LvAll\<close> as its key, which is what
  \<open>registry_ok\<close> says.
\<close>

definition registry_ok :: "(goint \<rightharpoonup> 'h list) \<Rightarrow> bool" where
  "registry_ok m \<longleftrightarrow> (\<forall>k xs. m k = Some xs \<longrightarrow> xs \<noteq> [] \<and> k \<noteq> Severity LvAll)"

inductive constructed :: "('v, 'e, 'h) Logger \<Rightarrow> bool" where
  con_New: "constructed (New E ks opts')"
| con_AddHandler: "constructed lg \<Longrightarrow> constructed (AddHandler lv x lg)"

subsection \<open>Example values\<close>

text \<open>A logger of strings whose \<open>any\<close> values are strings too, with handlers numbered by
  \<open>nat\<close>.\<close>

definition stringParam :: "(string, string) TypeParam" where
  "stringParam = \<lparr>emptyE = [], isString = Some id, Sprintf_v = id\<rparr>"

definition lgAll :: "(string, string, nat) Logger" where
  "lgAll = AddHandler LvAll 1 (New stringParam [] Defaults)"

definition lgInfo :: "(string, string, nat) Logger" where
  "lgInfo = AddHandler LvInfo 1 (New stringParam [] Defaults)"

definition LvLowest :: Level where
  "LvLowest = \<lparr>Name = ''LOWEST'', Severity = - 1000\<rparr>"

definition failingHandler :: "string \<Rightarrow> ('e, string list) Handler" where
  "failingHandler n =
     \<lparr>Output = (\<lambda>calldepth evt w. (Some (errorString n), w @ [n])),
      InsertBreak = (\<lambda>w. (Some (errorString n), w @ [n]))\<rparr>"

definition workingHandler :: "string \<Rightarrow> ('e, string list) Handler" where
  "workingHandler n =
     \<lparr>Output = (\<lambda>calldepth evt w. (None, w @ [n])), InsertBreak = (\<lambda>w. (None, w @ [n]))\<rparr>"

definition exampleHandlers :: "nat \<Rightarrow> (string, string list) Handler" where
  "exampleHandlers n =
     (if n = 1 then failingHandler ''disk full''
      else if n = 2 then workingHandler ''written''
      else failingHandler ''closed pipe'')"

definition lgThree :: "(string, string, nat) Logger" where
  "lgThree = AddHandler LvInfo 3 (AddHandler LvInfo 2 lgInfo)"

definition exampleTime :: Time where
  "exampleTime =
     \<lparr>localClock = \<lparr>year = 2023, month = 7, day = 20, hour = 9, minute = 5, second = 59,
                    nanosecond = 123456789\<rparr>,
      utcClock = \<lparr>year = 2023, month = 7, day = 20, hour = 16, minute = 5, second = 59,
                  nanosecond = 123456789\<rparr>\<rparr>"

definition evtInfo :: "string Event" where
  "evtInfo = \<lparr>Event.Component = [], Time = exampleTime, Level = LvInfo, Message = ''hello''\<rparr>"

text \<open>Sinks that never fail and keep the bytes written to them.\<close>

definition sinkWrite :: "string \<Rightarrow> string \<Rightarrow> error option \<times> string" where
  "sinkWrite buf w = (None, w @ buf)"

definition fileWrite :: "nat \<Rightarrow> string \<Rightarrow> string \<Rightarrow> error option \<times> string" where
  "fileWrite fd buf w = (None, w @ buf)"

definition sehH :: StderrHandler where
  "sehH = NewStderrHandler (Some \<lparr>Component = ''h'', Formatter = None\<rparr>)"

definition fhH :: "nat FileHandler" where
  "fhH = \<lparr>opts = \<lparr>Component = ''h'', Formatter = None\<rparr>, f = Some 3\<rparr>"

definition evtE :: "string Event" where
  "evtE = \<lparr>Event.Component = ''e'', Time = exampleTime, Level = LvInfo, Message = ''hello''\<rparr>"

definition lgH :: "(string, string, nat) Logger" where
  "lgH = AddHandler LvInfo 1 (New stringParam [] (Defaults\<lparr>Component := ''h''\<rparr>))"

definition natParam :: "(string, nat) TypeParam" where
  "natParam = \<lparr>emptyE = 0, isString = None, Sprintf_v = id\<rparr>"

definition evtTwoNewlines :: "string Event" where
  "evtTwoNewlines =
     \<lparr>Event.Component = [], Time = exampleTime, Level = LvInfo,
      Message = ''a'' @ [CHR 0x0A, CHR 0x0A]\<rparr>"

definition evtParen :: "string Event" where
  "evtParen =
     \<lparr>Event.Component = ''a'', Time = exampleTime, Level = LvInfo, Message = ''(a)''\<rparr>"

definition evtNewline :: "string Event" where
  "evtNewline =
     \<lparr>Event.Component = [], Time = exampleTime, Level = LvWarn, Message = ''bye'' @ [CHR 0x0A]\<rparr>"

definition evtServer :: "string Event" where
  "evtServer =
     \<lparr>Event.Component = ''server'', Time = exampleTime, Level = LvInfo, Message = ''started''\<rparr>"

definition lgTwo :: "(string, string, nat) Logger" where
  "lgTwo = AddHandler LvAll 2 lgInfo"

section \<open>Properties\<close>

subsection \<open>Severities and the registry\<close>

lemma MaxInt_greatest: "s <=s MaxInt"
  unfolding MaxInt_def word_sle_eq using sint_lt [of s] by simp

lemma MinInt_least: "MinInt <=s s"
  unfolding MinInt_def word_sle_eq using sint_ge [of s] by simp

lemma mapIndex_upd: "mapIndex (m(k \<mapsto> v)) k' = (if k' = k then v else mapIndex m k')"
  by (simp add: mapIndex_def)

lemma mapIndex_empty [simp]: "mapIndex Map.empty k = []"
  by (simp add: mapIndex_def)

lemma mapIndex_in_dom: "x \<in> set (mapIndex m k) \<Longrightarrow> k \<in> dom m"
  by (cases "m k") (auto simp: mapIndex_def)

lemma h_AddHandler:
  "h (AddHandler lv x lg) = (h lg)(sevKey lv \<mapsto> mapIndex (h lg) (sevKey lv) @ [x])"
  by (simp add: AddHandler_def Let_def mapIndex_def sevKey_def)

lemma opts_AddHandler: "Logger.opts (AddHandler lv x lg) = Logger.opts lg"
  by (simp add: AddHandler_def Let_def)

lemma mapIndex_AddHandler:
  "mapIndex (h (AddHandler lv x lg)) k =
     (if k = sevKey lv then mapIndex (h lg) k @ [x] else mapIndex (h lg) k)"
  by (simp add: h_AddHandler mapIndex_upd)

lemma mapIndex_AddHandler_fold:
  "mapIndex (h (foldl (\<lambda>lg x. AddHandler lv x lg) lg xs)) k =
     (if k = sevKey lv then mapIndex (h lg) k @ xs else mapIndex (h lg) k)"
  by (induction xs arbitrary: lg) (simp_all add: mapIndex_AddHandler)

lemma mapIndex_AddHandler_fold2:
  "mapIndex (h (foldl (\<lambda>lg lv. foldl (\<lambda>lg x. AddHandler lv x lg) lg (g lv)) lg ks)) k =
     mapIndex (h lg) k @ concat (map (\<lambda>lv. if sevKey lv = k then g lv else []) ks)"
  by (induction ks arbitrary: lg) (auto simp: mapIndex_AddHandler_fold)

lemma opts_AddHandler_fold2:
  "Logger.opts (foldl (\<lambda>lg lv. foldl (\<lambda>lg x. AddHandler lv x lg) lg (g lv)) lg ks) = Logger.opts lg"
proof -
  have a: "\<And>lg lv xs. Logger.opts (foldl (\<lambda>lg x. AddHandler lv x lg) lg xs) = Logger.opts lg"
    subgoal for lg lv xs by (induction xs arbitrary: lg) (simp_all add: opts_AddHandler)
    done
  show ?thesis by (induction ks arbitrary: lg) (simp_all add: a)
qed

lemma Handlers_defaultConverter: "Handlers (defaultConverter E p) = Handlers p"
  by (simp add: defaultConverter_def split: option.splits)

lemma New_alt:
  "New E ks p = (if dom (Handlers p) \<noteq> {} then
           foldl (\<lambda>lg lv. foldl (\<lambda>lg x. AddHandler lv x lg) lg (mapIndex (Handlers p) lv))
             \<lparr>Logger.opts = defaultConverter E p, useMtxForLogging = True, h = Map.empty\<rparr> ks
         else \<lparr>Logger.opts = defaultConverter E p, useMtxForLogging = True, h = Map.empty\<rparr>)"
  by (simp add: New_def Let_def defaultConverter_def split: option.splits)

lemma mapIndex_New:
  "mapIndex (h (New E ks p)) k =
     concat (map (\<lambda>lv. if sevKey lv = k then mapIndex (Handlers p) lv else []) ks)"
proof (cases "dom (Handlers p) = {}")
  case True
  then have "\<And>lv. mapIndex (Handlers p) lv = []"
    by (auto simp: mapIndex_def split: option.splits)
  with True show ?thesis by (auto simp: New_alt)
next
  case False
  then show ?thesis by (simp add: New_alt mapIndex_AddHandler_fold2)
qed

lemma registered_bucket:
  "registered lv x lg \<Longrightarrow> x \<in> set (mapIndex (h lg) (sevKey lv))"
proof (induction rule: registered.induct)
  case (reg_add lv x lg)
  show ?case by (simp add: mapIndex_AddHandler)
next
  case (reg_keep lv x lg lv' y)
  then show ?case by (auto simp: mapIndex_AddHandler)
next
  case (reg_new x opts' lv ks E)
  then have "lv \<in> set ks" by (auto simp: range_order_def dest: mapIndex_in_dom)
  with reg_new show ?case by (auto simp: mapIndex_New)
qed

lemma registered_only_bucket:
  "registered_only lv x lg \<Longrightarrow> x \<in> set (mapIndex (h lg) k) \<longleftrightarrow> k = sevKey lv"
proof (induction rule: registered_only.induct)
  case (only_add x lg lv)
  then show ?case by (simp add: mapIndex_AddHandler)
next
  case (only_keep lv x lg y lv')
  then show ?case by (auto simp: mapIndex_AddHandler)
qed

lemma set_HandlersForLevel_aux:
  "set (foldl (\<lambda>outputs minLevel.
              if minLevel <=s s then outputs @ mapIndex m minLevel else outputs) acc ks)
   = set acc \<union> (\<Union>k \<in> {k \<in> set ks. k <=s s}. set (mapIndex m k))"
  by (induction ks arbitrary: acc) auto

lemma in_HandlersForLevel_iff:
  assumes "range_order (h lg) ks"
  shows "x \<in> set (HandlersForLevel ks lg lv) \<longleftrightarrow>
           (\<exists>k. k <=s Severity lv \<and> x \<in> set (mapIndex (h lg) k))"
proof -
  have "x \<in> set (HandlersForLevel ks lg lv) \<longleftrightarrow>
          (\<exists>k \<in> set ks. k <=s Severity lv \<and> x \<in> set (mapIndex (h lg) k))"
    by (auto simp: HandlersForLevel_def set_HandlersForLevel_aux)
  also have "\<dots> \<longleftrightarrow> (\<exists>k. k <=s Severity lv \<and> x \<in> set (mapIndex (h lg) k))"
    using assms by (auto simp: range_order_def dest: mapIndex_in_dom)
  finally show ?thesis .
qed

lemma sevKey_le: "sevKey lv <=s Severity lv"
  by (simp add: sevKey_def minPossibleSeverity_def MinInt_least)

lemma h_New_Defaults: "h (New E [] Defaults) = Map.empty"
  by (simp add: New_def Defaults_def Let_def split: option.splits)

lemma h_lgAll: "h lgAll = [minPossibleSeverity \<mapsto> [1]]"
  by (simp add: lgAll_def h_AddHandler h_New_Defaults sevKey_def)

lemma h_lgInfo: "h lgInfo = [0 \<mapsto> [1]]"
  by (simp add: lgInfo_def h_AddHandler h_New_Defaults sevKey_def LvInfo_def LvAll_def MaxInt_def)

subsection \<open>Registration at \<open>LvAll\<close>\<close>

text \<open>
  Claim C1. A handler registered on a Logger for \<open>LvAll\<close> (by \<open>AddHandler\<close> or through
  the options of \<open>New\<close>) is in the bucket of \<open>minPossibleSeverity\<close>, which is the lowest
  severity there is, and so it is among the handlers of every level \<open>lv\<close>, whatever the
  order \<open>ks\<close> in which the buckets are visited.
\<close>

theorem LvAll_handler_receives_every_level:
  "registered LvAll x lg \<Longrightarrow> range_order (h lg) ks \<Longrightarrow>
     x \<in> set (mapIndex (h lg) minPossibleSeverity) \<and> (\<forall>s. minPossibleSeverity <=s s) \<and>
     x \<in> set (HandlersForLevel ks lg lv)"
proof -
  assume r: "registered LvAll x lg" and ro: "range_order (h lg) ks"
  have k: "sevKey LvAll = minPossibleSeverity" by (simp add: sevKey_def)
  from registered_bucket [OF r] have b: "x \<in> set (mapIndex (h lg) minPossibleSeverity)"
    by (simp add: k)
  have l: "\<forall>s. minPossibleSeverity <=s s" by (simp add: minPossibleSeverity_def MinInt_least)
  from b l have "x \<in> set (HandlersForLevel ks lg lv)"
    unfolding in_HandlersForLevel_iff [OF ro] by blast
  with b l show ?thesis by simp
qed

theorem LvAll_handler_receives_every_level_witness:
  "registered LvAll (1::nat) lgAll \<and> range_order (h lgAll) [minPossibleSeverity] \<and>
   1 \<in> set (mapIndex (h lgAll) minPossibleSeverity) \<and>
   1 \<in> set (HandlersForLevel [minPossibleSeverity] lgAll LvLowest)"
proof -
  have r: "registered LvAll (1::nat) lgAll"
    unfolding lgAll_def by (rule reg_add)
  have ro: "range_order (h lgAll) [minPossibleSeverity]"
    by (simp add: h_lgAll range_order_def)
  from LvAll_handler_receives_every_level [OF r ro, of LvLowest] r ro show ?thesis by simp
qed

subsection \<open>Thresholds\<close>

text \<open>
  Claim C3, first as the code contradicts it: a handler registered only for \<open>LvAll\<close> is
  dispatched to at \<open>LvTrace\<close>, although the severity of \<open>LvTrace\<close> is strictly below
  that of \<open>LvAll\<close>.
\<close>

theorem threshold_dispatch_LvAll_counterexample:
  "registered_only LvAll (1::nat) lgAll \<and> Severity LvTrace <s Severity LvAll \<and>
   1 \<in> set (HandlersForLevel [minPossibleSeverity] lgAll LvTrace)"
proof -
  have "registered_only LvAll (1::nat) (AddHandler LvAll 1 (New stringParam [] Defaults))"
    by (rule only_add) (simp add: h_New_Defaults)
  then have r: "registered_only LvAll (1::nat) lgAll" by (simp add: lgAll_def)
  have lt: "Severity LvTrace <s Severity LvAll"
    by (simp add: LvTrace_def LvAll_def MaxInt_def word_sless_alt)
  have "HandlersForLevel [minPossibleSeverity] lgAll LvTrace = [1]"
    by (simp add: HandlersForLevel_def h_lgAll mapIndex_def minPossibleSeverity_def MinInt_least)
  with r lt show ?thesis by simp
qed

text \<open>
  Claim C3, amended. A handler registered for \<open>L1\<close> is among the handlers of every level
  \<open>L2\<close> with the severity of \<open>L1\<close> at most that of \<open>L2\<close>. A handler whose only
  registration is for \<open>L1\<close>, where the severity of \<open>L1\<close> is not that of \<open>LvAll\<close>, is
  not among the handlers of a level strictly below \<open>L1\<close>.
\<close>

theorem threshold_dispatch:
  assumes "range_order (h lg) ks"
  shows "(registered L1 x lg \<and> Severity L1 <=s Severity L2
            \<longrightarrow> x \<in> set (HandlersForLevel ks lg L2)) \<and>
         (registered_only L1 x lg \<and> Severity L1 \<noteq> Severity LvAll \<and> Severity L2 <s Severity L1
            \<longrightarrow> x \<notin> set (HandlersForLevel ks lg L2))"
proof (intro conjI impI)
  assume a: "registered L1 x lg \<and> Severity L1 <=s Severity L2"
  then have "x \<in> set (mapIndex (h lg) (sevKey L1))"
    by (simp add: registered_bucket)
  moreover have "sevKey L1 <=s Severity L2"
    using sevKey_le [of L1] a by (meson signed.order_trans)
  ultimately show "x \<in> set (HandlersForLevel ks lg L2)"
    unfolding in_HandlersForLevel_iff [OF assms] by blast
next
  assume a: "registered_only L1 x lg \<and> Severity L1 \<noteq> Severity LvAll \<and> Severity L2 <s Severity L1"
  then have k: "sevKey L1 = Severity L1" by (simp add: sevKey_def)
  show "x \<notin> set (HandlersForLevel ks lg L2)"
  proof
    assume "x \<in> set (HandlersForLevel ks lg L2)"
    then obtain k where k1: "k <=s Severity L2" and k2: "x \<in> set (mapIndex (h lg) k)"
      unfolding in_HandlersForLevel_iff [OF assms] by blast
    from a k2 have "k = Severity L1"
      using registered_only_bucket [of L1 x lg k] k by simp
    with k1 a show False
      by (meson signed.not_le)
  qed
qed

theorem threshold_dispatch_witness:
  "range_order (h lgInfo) [0] \<and>
   registered LvInfo (1::nat) lgInfo \<and> Severity LvInfo <=s Severity LvWarn \<and>
   1 \<in> set (HandlersForLevel [0] lgInfo LvWarn) \<and>
   registered_only LvInfo (1::nat) lgInfo \<and> Severity LvInfo \<noteq> Severity LvAll \<and>
   Severity LvDebug <s Severity LvInfo \<and>
   1 \<notin> set (HandlersForLevel [0] lgInfo LvDebug)"
proof -
  have ro: "range_order (h lgInfo) [0]"
    by (simp add: h_lgInfo range_order_def)
  have r: "registered LvInfo (1::nat) lgInfo"
    unfolding lgInfo_def by (rule reg_add)
  have "registered_only LvInfo (1::nat) (AddHandler LvInfo 1 (New stringParam [] Defaults))"
    by (rule only_add) (simp add: h_New_Defaults)
  then have r': "registered_only LvInfo (1::nat) lgInfo" by (simp add: lgInfo_def)
  have le: "Severity LvInfo <=s Severity LvWarn"
    by (simp add: LvInfo_def LvWarn_def word_sle_eq)
  have ne: "Severity LvInfo \<noteq> Severity LvAll"
    by (simp add: LvInfo_def LvAll_def MaxInt_def)
  have lt: "Severity LvDebug <s Severity LvInfo"
    by (simp add: LvInfo_def LvDebug_def word_sless_alt)
  from threshold_dispatch [OF ro, of LvInfo 1 LvWarn] threshold_dispatch [OF ro, of LvInfo 1 LvDebug] ro r r' le ne lt
  show ?thesis by simp
qed

subsection \<open>Dispatch at \<open>LvAll\<close>\<close>

text \<open>
  Claim C10. The severity of \<open>LvAll\<close> is the greatest there is, so
  \<open>HandlersForLevel\<close> at \<open>LvAll\<close> returns every bucket of the registry, and with it
  every handler \<open>x\<close> of every bucket \<open>k\<close>.
\<close>

theorem HandlersForLevel_LvAll_returns_all:
  assumes "range_order (h lg) ks"
  shows "(\<forall>k. k <=s Severity LvAll) \<and>
         HandlersForLevel ks lg LvAll = concat (map (mapIndex (h lg)) ks) \<and>
         (x \<in> set (mapIndex (h lg) k) \<longrightarrow> x \<in> set (HandlersForLevel ks lg LvAll))"
proof -
  have top: "\<forall>k. k <=s Severity LvAll"
    by (simp add: LvAll_def MaxInt_greatest)
  have "\<And>acc. foldl (\<lambda>outputs minLevel.
              if minLevel <=s Severity LvAll then outputs @ mapIndex (h lg) minLevel else outputs)
            acc ks = acc @ concat (map (mapIndex (h lg)) ks)"
    subgoal for acc using top by (induction ks arbitrary: acc) simp_all
    done
  then have eq: "HandlersForLevel ks lg LvAll = concat (map (mapIndex (h lg)) ks)"
    by (simp add: HandlersForLevel_def)
  have "x \<in> set (mapIndex (h lg) k) \<longrightarrow> x \<in> set (HandlersForLevel ks lg LvAll)"
    unfolding in_HandlersForLevel_iff [OF assms] using top by blast
  with top eq show ?thesis by simp
qed

theorem HandlersForLevel_LvAll_returns_all_witness:
  "range_order (h lgInfo) [0] \<and> HandlersForLevel [0] lgInfo LvAll = [1] \<and>
   (1::nat) \<in> set (mapIndex (h lgInfo) 0) \<and> 1 \<in> set (HandlersForLevel [0] lgInfo LvAll)"
proof -
  have ro: "range_order (h lgInfo) [0]"
    by (simp add: h_lgInfo range_order_def)
  have m: "mapIndex (h lgInfo) 0 = [1]"
    by (simp add: h_lgInfo mapIndex_def)
  from HandlersForLevel_LvAll_returns_all [OF ro, of 1 0] ro m show ?thesis by simp
qed

subsection \<open>Dispatch and its errors\<close>

lemma outputLoop_runAll:
  "outputLoop H dispatch calldepth evt fullErr w =
     (foldl joinErr fullErr (fst (runAll (map (\<lambda>x. Output (H x) (calldepth + 1) evt) dispatch) w)),
      snd (runAll (map (\<lambda>x. Output (H x) (calldepth + 1) evt) dispatch) w))"
proof (induction dispatch arbitrary: fullErr w)
  case Nil
  show ?case by simp
next
  case (Cons x dispatch)
  obtain r w' where c: "Output (H x) (calldepth + 1) evt w = (r, w')"
    by (cases "Output (H x) (calldepth + 1) evt w")
  show ?case
    by (cases r; cases fullErr) (simp_all add: c Cons.IH joinErr_def split: prod.splits)
qed

lemma insertBreakLoop_runAll:
  "insertBreakLoop H dispatch fullErr w =
     (foldl joinErr fullErr (fst (runAll (map (\<lambda>x. InsertBreak (H x)) dispatch) w)),
      snd (runAll (map (\<lambda>x. InsertBreak (H x)) dispatch) w))"
proof (induction dispatch arbitrary: fullErr w)
  case Nil
  show ?case by simp
next
  case (Cons x dispatch)
  obtain r w' where c: "InsertBreak (H x) w = (r, w')"
    by (cases "InsertBreak (H x) w")
  show ?case
    by (cases r; cases fullErr) (simp_all add: c Cons.IH joinErr_def split: prod.splits)
qed

lemma foldl_joinErr_Some:
  "map_option Error (foldl joinErr (Some e) rs) =
     Some (Error e @ concat (map (\<lambda>e'. [CHR 0x0A] @ ''hander: '' @ Error e') (nonNil rs)))"
proof (induction rs arbitrary: e rule: nonNil.induct)
  case 1
  show ?case by simp
next
  case (2 rs)
  then show ?case by (simp add: joinErr_def)
next
  case (3 e' rs)
  have "foldl joinErr (Some e) (Some e' # rs) =
          foldl joinErr (Some (wrapError (Error e @ [CHR 0x0A] @ ''hander: '' @ Error e') e')) rs"
    by (simp add: joinErr_def)
  then show ?case
    using "3.IH" [of "wrapError (Error e @ [CHR 0x0A] @ ''hander: '' @ Error e') e'"] by simp
qed

lemma foldl_joinErr_None:
  "map_option Error (foldl joinErr None rs) =
     (if nonNil rs = [] then None else Some (joinedMessage (nonNil rs)))"
proof (induction rs rule: nonNil.induct)
  case 1
  show ?case by simp
next
  case (2 rs)
  then show ?case by (simp add: joinErr_def)
next
  case (3 e rs)
  have "foldl joinErr None (Some e # rs) = foldl joinErr (Some (wrapError (''handler: '' @ Error e) e)) rs"
    by (simp add: joinErr_def)
  then show ?case
    using foldl_joinErr_Some [of "wrapError (''handler: '' @ Error e) e" rs] by simp
qed

lemma foldl_joinErr_None_iff: "foldl joinErr None rs = None \<longleftrightarrow> nonNil rs = []"
  using foldl_joinErr_None [of rs] by (cases "foldl joinErr None rs") (auto split: if_splits)

lemma Logger_Output_loop:
  "Logger_Output H ks lg calldepth evt w =
     outputLoop H (HandlersForLevel ks lg (Level evt)) calldepth
       (withComponent (Component (Logger.opts lg)) evt) None w"
  by (simp add: Logger_Output_def withComponent_def Let_def)

lemma length_runAll: "length (fst (runAll cs w)) = length cs"
proof (induction cs arbitrary: w)
  case Nil
  show ?case by simp
next
  case (Cons c cs)
  obtain r w' where c: "c w = (r, w')" by (cases "c w")
  obtain rs w'' where r: "runAll cs w' = (rs, w'')" by (cases "runAll cs w'")
  from Cons.IH [of w'] r have "length rs = length cs" by simp
  with c r show ?case by simp
qed

lemma HandlersForLevel_lgThree: "HandlersForLevel [0] lgThree LvInfo = [1, 2, 3]"
  by (simp add: HandlersForLevel_def lgThree_def h_AddHandler h_lgInfo sevKey_def mapIndex_def
      LvInfo_def LvAll_def MaxInt_def word_sle_eq)

text \<open>
  Claim C4. \<open>Logger.Output\<close> and \<open>Logger.InsertBreak\<close> call every handler that
  \<open>HandlersForLevel\<close> returns, in turn: there is one result for each handler, and the
  world they leave is the one after all these calls, whether or not a call returned an
  error. The error returned is nil exactly when no handler returned an error; otherwise its
  message is made of the messages of all the errors returned, in order.
\<close>

theorem dispatch_attempts_all_and_collects:
  "length (fst (outputResults H (HandlersForLevel ks lg (Level evt)) calldepth
       (withComponent (Component (Logger.opts lg)) evt) w))
     = length (HandlersForLevel ks lg (Level evt)) \<and>
   snd (Logger_Output H ks lg calldepth evt w)
     = snd (outputResults H (HandlersForLevel ks lg (Level evt)) calldepth
              (withComponent (Component (Logger.opts lg)) evt) w) \<and>
   (fst (Logger_Output H ks lg calldepth evt w) = None) =
     (nonNil (fst (outputResults H (HandlersForLevel ks lg (Level evt)) calldepth
        (withComponent (Component (Logger.opts lg)) evt) w)) = []) \<and>
   map_option Error (fst (Logger_Output H ks lg calldepth evt w)) =
     (case nonNil (fst (outputResults H (HandlersForLevel ks lg (Level evt)) calldepth
        (withComponent (Component (Logger.opts lg)) evt) w)) of
        [] \<Rightarrow> None | e # es \<Rightarrow> Some (joinedMessage (e # es))) \<and>
   length (fst (breakResults H (HandlersForLevel ks lg lv) w))
     = length (HandlersForLevel ks lg lv) \<and>
   snd (Logger_InsertBreak H ks lg lv w) = snd (breakResults H (HandlersForLevel ks lg lv) w) \<and>
   (fst (Logger_InsertBreak H ks lg lv w) = None) =
     (nonNil (fst (breakResults H (HandlersForLevel ks lg lv) w)) = []) \<and>
   map_option Error (fst (Logger_InsertBreak H ks lg lv w)) =
     (case nonNil (fst (breakResults H (HandlersForLevel ks lg lv) w)) of
        [] \<Rightarrow> None | e # es \<Rightarrow> Some (joinedMessage (e # es)))"
  unfolding Logger_Output_loop Logger_InsertBreak_def Let_def
    outputLoop_runAll insertBreakLoop_runAll outputResults_def breakResults_def
  by (simp add: foldl_joinErr_None_iff foldl_joinErr_None length_runAll split: prod.splits list.splits)

theorem dispatch_attempts_all_and_collects_witness:
  "nonNil (fst (outputResults exampleHandlers (HandlersForLevel [0] lgThree (Level evtInfo)) 2
       (withComponent (Component (Logger.opts lgThree)) evtInfo) []))
     = [errorString ''disk full'', errorString ''closed pipe''] \<and>
   snd (Logger_Output exampleHandlers [0] lgThree 2 evtInfo [])
     = [''disk full'', ''written'', ''closed pipe''] \<and>
   fst (Logger_Output exampleHandlers [0] lgThree 2 evtInfo []) \<noteq> None \<and>
   map_option Error (fst (Logger_Output exampleHandlers [0] lgThree 2 evtInfo []))
     = Some (''handler: disk full'' @ [CHR 0x0A] @ ''hander: closed pipe'') \<and>
   snd (Logger_InsertBreak exampleHandlers [0] lgThree LvInfo [])
     = [''disk full'', ''written'', ''closed pipe''] \<and>
   map_option Error (fst (Logger_InsertBreak exampleHandlers [0] lgThree LvInfo []))
     = Some (''handler: disk full'' @ [CHR 0x0A] @ ''hander: closed pipe'')"
proof -
  have l: "Level evtInfo = LvInfo" by (simp add: evtInfo_def)
  have o: "outputResults exampleHandlers [1, 2, 3] 2
             (withComponent (Component (Logger.opts lgThree)) evtInfo) []
           = ([Some (errorString ''disk full''), None, Some (errorString ''closed pipe'')],
              [''disk full'', ''written'', ''closed pipe''])"
    by (simp add: outputResults_def exampleHandlers_def failingHandler_def workingHandler_def)
  have b: "breakResults exampleHandlers [1, 2, 3] []
           = ([Some (errorString ''disk full''), None, Some (errorString ''closed pipe'')],
              [''disk full'', ''written'', ''closed pipe''])"
    by (simp add: breakResults_def exampleHandlers_def failingHandler_def workingHandler_def)
  from dispatch_attempts_all_and_collects [of exampleHandlers "[0]" lgThree evtInfo 2 "[]" LvInfo]
  show ?thesis
    unfolding l HandlersForLevel_lgThree o b by simp
qed

subsection \<open>Chaining of components\<close>

text \<open>
  Claim C2, first as the code contradicts it: a stderr handler configured with the
  component \<open>h\<close> writes an event whose component is \<open>e\<close> with the component
  \<open>e.h\<close>; the handler's component comes after the event's, not before it.
\<close>

theorem component_is_appended_counterexample:
  "Component (StderrHandler.opts sehH) = ''h'' \<and> Event.Component evtE = ''e'' \<and>
   StderrHandler_Output sinkWrite sehH 1 evtE []
     = (None, ''2023/07/20 09:05:59 INFO  (e.h) hello'' @ [CHR 0x0A]) \<and>
   StderrHandler_Output sinkWrite sehH 1 evtE []
     \<noteq> (None, ''2023/07/20 09:05:59 INFO  (h.e) hello'' @ [CHR 0x0A])"
  by code_simp

lemma StderrHandler_Output_eq:
  "StderrHandler_Output write seh calldepth evt w
     = write (formatWith (StderrHandler.opts seh)
         (withComponent (Component (StderrHandler.opts seh)) evt)) w"
  by (simp add: StderrHandler_Output_def formatWith_def withComponent_def Let_def
      split: option.splits)

lemma FileHandler_Output_eq:
  "f fh = Some fd \<Longrightarrow>
   FileHandler_Output fwrite fh calldepth evt w
     = fwrite fd (formatWith (FileHandler.opts fh)
         (withComponent (Component (FileHandler.opts fh)) evt)) w"
  by (simp add: FileHandler_Output_def formatWith_def withComponent_def Let_def File_Write_def
      split: option.splits)

text \<open>
  Claim C2, amended. A stderr handler, an opened file handler or a Logger configured with
  a non-empty component \<open>c\<close> appends \<open>c\<close> to the component of the event, after a
  \<open>.\<close> if the event's component is not empty; the handlers format and write the event
  so changed, and the Logger passes it to its handlers.
\<close>

theorem component_chaining:
  assumes "c \<noteq> []"
  shows "(Component (StderrHandler.opts seh) = c \<longrightarrow>
            StderrHandler_Output swrite seh calldepth evt w
              = swrite (formatWith (StderrHandler.opts seh)
                  (evt\<lparr>Event.Component :=
                     (if Event.Component evt = [] then c else Event.Component evt @ ''.'' @ c)\<rparr>)) w) \<and>
         (Component (FileHandler.opts fh) = c \<and> f fh = Some fd \<longrightarrow>
            FileHandler_Output fwrite fh calldepth evt w
              = fwrite fd (formatWith (FileHandler.opts fh)
                  (evt\<lparr>Event.Component :=
                     (if Event.Component evt = [] then c else Event.Component evt @ ''.'' @ c)\<rparr>)) w) \<and>
         (Component (Logger.opts lg) = c \<longrightarrow>
            Logger_Output H ks lg calldepth ev wl
              = outputLoop H (HandlersForLevel ks lg (Level ev)) calldepth
                  (ev\<lparr>Event.Component :=
                     (if Event.Component ev = [] then c else Event.Component ev @ ''.'' @ c)\<rparr>)
                  None wl)"
  using assms
  by (auto simp: StderrHandler_Output_eq FileHandler_Output_eq Logger_Output_loop withComponent_def)

theorem component_chaining_witness:
  "''h'' \<noteq> [] \<and> Component (StderrHandler.opts sehH) = ''h'' \<and>
   StderrHandler_Output sinkWrite sehH 1 evtE []
     = sinkWrite (formatWith (StderrHandler.opts sehH) (evtE\<lparr>Event.Component := ''e.h''\<rparr>)) [] \<and>
   Component (FileHandler.opts fhH) = ''h'' \<and> f fhH = Some 3 \<and>
   FileHandler_Output fileWrite fhH 1 evtE []
     = fileWrite 3 (formatWith (FileHandler.opts fhH) (evtE\<lparr>Event.Component := ''e.h''\<rparr>)) [] \<and>
   Component (Logger.opts lgH) = ''h'' \<and>
   Logger_Output exampleHandlers [0] lgH 1 evtInfo []
     = outputLoop exampleHandlers (HandlersForLevel [0] lgH (Level evtInfo)) 1
         (evtInfo\<lparr>Event.Component := ''h''\<rparr>) None []"
proof -
  have n: "''h'' \<noteq> []" by simp
  have a: "Component (StderrHandler.opts sehH) = ''h''"
    by (simp add: sehH_def NewStderrHandler_def)
  have b: "Component (FileHandler.opts fhH) = ''h'' \<and> f fhH = Some 3"
    by (simp add: fhH_def)
  have c: "Component (Logger.opts lgH) = ''h''"
    by (simp add: lgH_def opts_AddHandler New_alt defaultConverter_def Defaults_def stringParam_def)
  have e: "Event.Component evtE = ''e''" "Event.Component evtInfo = []"
    by (simp_all add: evtE_def evtInfo_def)
  from component_chaining [OF n, where seh = sehH and swrite = sinkWrite and calldepth = 1
         and evt = evtE and w = "[]" and fh = fhH and fd = 3 and fwrite = fileWrite
         and lg = lgH and H = exampleHandlers and ks = "[0]" and ev = evtInfo and wl = "[]"]
       a b c e n
  show ?thesis by simp
qed

subsection \<open>The file handler that was never opened\<close>

text \<open>
  Claim C7, as the code behaves on the zero value \<open>FileHandler{}\<close>: \<open>Output\<close> returns
  its own error and writes nothing, but \<open>InsertBreak\<close> has no such check, calls
  \<open>Write\<close> on the nil file and returns the error of that call, \<open>os.ErrInvalid\<close>.
\<close>

theorem zero_FileHandler_InsertBreak_unguarded:
  "FileHandler_Output fwrite zeroFileHandler calldepth evt w
     = (Some (errorString ''Output() called on FileHandler created without OpenFile''), w) \<and>
   FileHandler_InsertBreak fwrite zeroFileHandler w = (Some ErrInvalid, w) \<and>
   ErrInvalid \<noteq> errorString ''Output() called on FileHandler created without OpenFile''"
  by (simp add: FileHandler_Output_def FileHandler_InsertBreak_def zeroFileHandler_def
      File_Write_def ErrInvalid_def)

subsection \<open>The default converter\<close>

text \<open>
  Claim C9. When the options give no converter, the Logger that \<open>New\<close> returns has one:
  it renders its argument with \<open>fmt.Sprintf("%v", v)\<close> if the payload type is
  \<open>string\<close>, and returns the zero value of the payload type otherwise.
\<close>

theorem New_default_converter:
  assumes "Converter opts' = None"
  shows "\<exists>conv. Converter (Logger.opts (New E ks opts')) = Some conv \<and>
           (\<forall>v. conv v = (case isString E of Some toE \<Rightarrow> toE (Sprintf_v E v) | None \<Rightarrow> emptyE E))"
proof -
  have "Logger.opts (New E ks opts') = defaultConverter E opts'"
    by (simp add: New_alt opts_AddHandler_fold2)
  with assms show ?thesis
    by (simp add: defaultConverter_def split: option.splits)
qed

theorem New_default_converter_witness:
  "Converter (Defaults :: (string, string, nat) Options) = None \<and>
   the (Converter (Logger.opts (New stringParam [] (Defaults :: (string, string, nat) Options))))
     ''42'' = ''42'' \<and>
   Converter (Defaults :: (string, nat, nat) Options) = None \<and>
   the (Converter (Logger.opts (New natParam [] (Defaults :: (string, nat, nat) Options))))
     ''42'' = 0"
proof -
  have d: "Converter (Defaults :: (string, string, nat) Options) = None"
    and d': "Converter (Defaults :: (string, nat, nat) Options) = None"
    by (simp_all add: Defaults_def)
  from New_default_converter [OF d, of stringParam "[]"]
       New_default_converter [OF d', of natParam "[]"] d d'
  show ?thesis by (auto simp: stringParam_def natParam_def)
qed

subsection \<open>The line formatter: trailing newline\<close>

lemma HasSuffix_suffix: "HasSuffix s suf \<longleftrightarrow> suffix suf s"
proof
  assume "HasSuffix s suf"
  then have "s = take (length s - length suf) s @ suf"
    by (metis HasSuffix_def append_take_drop_id)
  then show "suffix suf s" by (metis suffixI)
next
  assume "suffix suf s"
  then obtain ys where "s = ys @ suf" by (auto simp: suffix_def)
  then show "HasSuffix s suf" by (simp add: HasSuffix_def)
qed

lemma LineFormat_Format_eq:
  "LineFormat_Format lf evt =
     linePrefix lf evt
       @ (if Event.Component evt \<noteq> [] then ''('' @ Event.Component evt @ '') '' else [])
       @ lineMessage (Message evt)"
  by (simp add: LineFormat_Format_def linePrefix_def lineMessage_def Let_def)

lemma lineMessage_snoc: "\<exists>ms. lineMessage msg = ms @ [CHR 0x0A]"
proof (cases "HasSuffix msg [CHR 0x0A]")
  case True
  then show ?thesis by (auto simp: lineMessage_def HasSuffix_suffix suffix_def)
next
  case False
  then show ?thesis by (simp add: lineMessage_def)
qed

lemma lineMessage_no_double:
  assumes "\<not> HasSuffix msg [CHR 0x0A, CHR 0x0A]" and "xs \<noteq> []" and "last xs \<noteq> CHR 0x0A"
  shows "\<not> HasSuffix (xs @ lineMessage msg) [CHR 0x0A, CHR 0x0A]"
proof (cases "HasSuffix msg [CHR 0x0A]")
  case True
  then obtain ms where ms: "msg = ms @ [CHR 0x0A]"
    by (auto simp: HasSuffix_suffix suffix_def)
  with assms(1) have "\<not> suffix [CHR 0x0A] ms"
    using snoc_suffix_snoc [of "[CHR 0x0A]" "CHR 0x0A" ms "CHR 0x0A"]
    by (simp add: HasSuffix_suffix)
  then have a: "ms = [] \<or> last ms \<noteq> CHR 0x0A"
    by (metis append_butlast_last_id suffixI)
  have "lineMessage msg = ms @ [CHR 0x0A]"
    using True ms by (simp add: lineMessage_def)
  moreover have "\<not> suffix [CHR 0x0A] (xs @ ms)"
  proof
    assume "suffix [CHR 0x0A] (xs @ ms)"
    then obtain zs where "xs @ ms = zs @ [CHR 0x0A]" by (auto simp: suffix_def)
    then have "last (xs @ ms) = CHR 0x0A" by simp
    with a assms(2,3) show False by (cases "ms = []") simp_all
  qed
  ultimately show ?thesis
    using snoc_suffix_snoc [of "[CHR 0x0A]" "CHR 0x0A" "xs @ ms" "CHR 0x0A"]
    by (simp add: HasSuffix_suffix)
next
  case False
  then have a: "msg = [] \<or> last msg \<noteq> CHR 0x0A"
    by (metis HasSuffix_suffix append_butlast_last_id suffixI)
  have "\<not> suffix [CHR 0x0A] (xs @ msg)"
  proof
    assume "suffix [CHR 0x0A] (xs @ msg)"
    then obtain zs where "xs @ msg = zs @ [CHR 0x0A]" by (auto simp: suffix_def)
    then have "last (xs @ msg) = CHR 0x0A" by simp
    with a assms(2,3) show False by (cases "msg = []") simp_all
  qed
  then show ?thesis
    using False snoc_suffix_snoc [of "[CHR 0x0A]" "CHR 0x0A" "xs @ msg" "CHR 0x0A"]
    by (simp add: HasSuffix_suffix lineMessage_def)
qed

text \<open>
  Claim C5, first as the code contradicts it: a message that ends in two newlines is
  written as it is, and the output ends in two newlines.
\<close>

theorem trailing_newlines_kept_counterexample:
  "LineFormat_Format defFormatter evtTwoNewlines
     = ''2023/07/20 09:05:59 INFO  a'' @ [CHR 0x0A, CHR 0x0A] \<and>
   HasSuffix (LineFormat_Format defFormatter evtTwoNewlines) [CHR 0x0A, CHR 0x0A]"
  by code_simp

text \<open>
  Claim C5, amended. The output of \<open>Format\<close> always ends in a newline. A message that
  does not end in a newline is written with one newline added; a message that ends in a
  newline is written as it is, with none added. So the output ends in exactly one newline
  unless the message itself ends in more than one.
\<close>

theorem format_ends_in_newline:
  "HasSuffix (LineFormat_Format lf evt) [CHR 0x0A] \<and>
   (\<not> HasSuffix (Message evt) [CHR 0x0A] \<longrightarrow>
      HasSuffix (LineFormat_Format lf evt) (Message evt @ [CHR 0x0A])) \<and>
   (HasSuffix (Message evt) [CHR 0x0A] \<longrightarrow> HasSuffix (LineFormat_Format lf evt) (Message evt)) \<and>
   (\<not> HasSuffix (Message evt) [CHR 0x0A, CHR 0x0A] \<longrightarrow>
      \<not> HasSuffix (LineFormat_Format lf evt) [CHR 0x0A, CHR 0x0A])"
proof (intro conjI impI)
  obtain ms where "lineMessage (Message evt) = ms @ [CHR 0x0A]"
    using lineMessage_snoc by blast
  then show "HasSuffix (LineFormat_Format lf evt) [CHR 0x0A]"
    by (simp add: LineFormat_Format_eq HasSuffix_suffix suffix_def)
next
  assume "\<not> HasSuffix (Message evt) [CHR 0x0A]"
  then show "HasSuffix (LineFormat_Format lf evt) (Message evt @ [CHR 0x0A])"
    by (simp add: LineFormat_Format_eq HasSuffix_suffix lineMessage_def suffix_def)
next
  assume "HasSuffix (Message evt) [CHR 0x0A]"
  then show "HasSuffix (LineFormat_Format lf evt) (Message evt)"
    by (simp add: LineFormat_Format_eq HasSuffix_suffix lineMessage_def suffix_def)
next
  assume a: "\<not> HasSuffix (Message evt) [CHR 0x0A, CHR 0x0A]"
  let ?xs = "linePrefix lf evt
       @ (if Event.Component evt \<noteq> [] then ''('' @ Event.Component evt @ '') '' else [])"
  have "?xs \<noteq> []" and "last ?xs \<noteq> CHR 0x0A"
    by (simp_all add: linePrefix_def)
  from lineMessage_no_double [OF a this]
  show "\<not> HasSuffix (LineFormat_Format lf evt) [CHR 0x0A, CHR 0x0A]"
    by (simp add: LineFormat_Format_eq)
qed

theorem format_ends_in_newline_witness:
  "\<not> HasSuffix (Message evtInfo) [CHR 0x0A] \<and>
   HasSuffix (LineFormat_Format defFormatter evtInfo) (Message evtInfo @ [CHR 0x0A]) \<and>
   \<not> HasSuffix (Message evtInfo) [CHR 0x0A, CHR 0x0A] \<and>
   \<not> HasSuffix (LineFormat_Format defFormatter evtInfo) [CHR 0x0A, CHR 0x0A] \<and>
   HasSuffix (Message evtNewline) [CHR 0x0A] \<and>
   HasSuffix (LineFormat_Format defFormatter evtNewline) (Message evtNewline)"
proof -
  have a: "\<not> HasSuffix (Message evtInfo) [CHR 0x0A]"
    and b: "\<not> HasSuffix (Message evtInfo) [CHR 0x0A, CHR 0x0A]"
    and c: "HasSuffix (Message evtNewline) [CHR 0x0A]"
    by (simp_all add: evtInfo_def evtNewline_def HasSuffix_def)
  from format_ends_in_newline [of defFormatter evtInfo] format_ends_in_newline [of defFormatter evtNewline] a b c
  show ?thesis by simp
qed

subsection \<open>The line formatter: the digits of the time stamp\<close>

lemma char_of_digit:
  "char_of (48 :: int) = CHR ''0''" "char_of (49 :: int) = CHR ''1''"
  "char_of (50 :: int) = CHR ''2''" "char_of (51 :: int) = CHR ''3''"
  "char_of (52 :: int) = CHR ''4''" "char_of (53 :: int) = CHR ''5''"
  "char_of (54 :: int) = CHR ''6''" "char_of (55 :: int) = CHR ''7''"
  "char_of (56 :: int) = CHR ''8''" "char_of (57 :: int) = CHR ''9''"
  by (simp_all add: char_of_eq_iff)

lemma digit_char: "0 \<le> d \<Longrightarrow> d < 10 \<Longrightarrow> char_of (48 + d :: int) \<in> decimalDigits"
proof -
  assume "0 \<le> d" "d < 10"
  then have "d = 0 \<or> d = 1 \<or> d = 2 \<or> d = 3 \<or> d = 4 \<or> d = 5 \<or> d = 6 \<or> d = 7 \<or> d = 8 \<or> d = 9"
    by arith
  then show ?thesis
    by (elim disjE) (simp_all add: char_of_digit decimalDigits_def)
qed

lemma goDiv_nonneg: "0 \<le> i \<Longrightarrow> goDiv i 10 = i div 10"
  by (cases "i = 0") (simp_all add: goDiv_def)

lemma itoa_loop_step:
  "10 \<le> i \<or> 1 < wid \<Longrightarrow>
   itoa_loop i wid b = itoa_loop (goDiv i 10) (wid - 1) (char_of (48 + i - goDiv i 10 * 10) # b)"
  by (subst itoa_loop.simps) (simp add: Let_def)

lemma itoa_loop_stop:
  "\<not> (10 \<le> i \<or> 1 < wid) \<Longrightarrow> itoa_loop i wid b = char_of (48 + i) # b"
  by (subst itoa_loop.simps) simp

lemma itoa_loop_digits:
  "0 \<le> i \<Longrightarrow> set (itoa_loop i wid b) \<subseteq> set b \<union> decimalDigits"
proof (induction i wid b rule: itoa_loop.induct)
  case (1 i wid b)
  show ?case
  proof (cases "10 \<le> i \<or> 1 < wid")
    case True
    have q: "goDiv i 10 = i div 10" using 1(2) by (rule goDiv_nonneg)
    have "i - i div 10 * 10 = i mod 10"
      by (simp add: minus_div_mult_eq_mod)
    then have e: "48 + i - i div 10 * 10 = 48 + i mod 10"
      by simp
    have d: "char_of (48 + i - goDiv i 10 * 10) \<in> decimalDigits"
      unfolding q e by (rule digit_char) simp_all
    have "0 \<le> goDiv i 10" using 1(2) by (simp add: q)
    with 1(1) [OF True refl]
    have "set (itoa_loop (goDiv i 10) (wid - 1) (char_of (48 + i - goDiv i 10 * 10) # b))
            \<subseteq> set (char_of (48 + i - goDiv i 10 * 10) # b) \<union> decimalDigits"
      by blast
    with d show ?thesis
      unfolding itoa_loop_step [OF True] by (simp add: subset_iff) blast
  next
    case False
    then have "i < 10" by simp
    with 1(2) have "char_of (48 + i) \<in> decimalDigits" by (rule digit_char)
    then show ?thesis
      unfolding itoa_loop_stop [OF False] by (simp add: subset_iff)
  qed
qed

lemma itoa_digits: "0 \<le> i \<Longrightarrow> set (itoa buf i wid) \<subseteq> set buf \<union> decimalDigits"
  using itoa_loop_digits [of i wid "[]"] by (auto simp: itoa_def)

lemma paren_not_digit: "CHR ''('' \<notin> decimalDigits"
  by (simp add: decimalDigits_def)

lemma itoa_no_paren:
  "0 \<le> i \<Longrightarrow> CHR ''('' \<notin> set buf \<Longrightarrow> CHR ''('' \<notin> set (itoa buf i wid)"
  using itoa_digits [of i buf wid] paren_not_digit by blast

lemma goDiv_nonneg': "0 \<le> a \<Longrightarrow> 0 \<le> b \<Longrightarrow> 0 \<le> goDiv a b"
  by (simp add: goDiv_def sgn_if pos_imp_zdiv_nonneg_iff)

lemma formatTime_no_paren:
  assumes "nonNegativeClock (if utc then utcClock t else localClock t)"
  shows "CHR ''('' \<notin> set (formatTime t utc micros)"
proof -
  let ?c = "if utc then utcClock t else localClock t"
  from assms have n: "0 \<le> year ?c" "0 \<le> month ?c" "0 \<le> day ?c" "0 \<le> hour ?c"
    "0 \<le> minute ?c" "0 \<le> second ?c" "0 \<le> goDiv (nanosecond ?c) 1000"
    by (simp_all add: nonNegativeClock_def goDiv_nonneg')
  have 1: "CHR ''('' \<notin> set (itoa [] (year ?c) 4 @ ''/'')"
    using itoa_no_paren [OF n(1), of "[]" 4] by simp
  have 2: "CHR ''('' \<notin> set (itoa (itoa [] (year ?c) 4 @ ''/'') (month ?c) 2 @ ''/'')"
    using itoa_no_paren [OF n(2) 1, of 2] by simp
  have 3: "CHR ''('' \<notin> set (itoa (itoa (itoa [] (year ?c) 4 @ ''/'') (month ?c) 2 @ ''/'')
                (day ?c) 2 @ '' '')"
    using itoa_no_paren [OF n(3) 2, of 2] by simp
  have 4: "CHR ''('' \<notin> set (itoa (itoa (itoa (itoa [] (year ?c) 4 @ ''/'') (month ?c) 2 @ ''/'')
                (day ?c) 2 @ '' '') (hour ?c) 2 @ '':'')"
    using itoa_no_paren [OF n(4) 3, of 2] by simp
  have 5: "CHR ''('' \<notin> set (itoa (itoa (itoa (itoa (itoa [] (year ?c) 4 @ ''/'') (month ?c) 2
                @ ''/'') (day ?c) 2 @ '' '') (hour ?c) 2 @ '':'') (minute ?c) 2 @ '':'')"
    using itoa_no_paren [OF n(5) 4, of 2] by simp
  have 6: "CHR ''('' \<notin> set (itoa (itoa (itoa (itoa (itoa (itoa [] (year ?c) 4 @ ''/'')
                (month ?c) 2 @ ''/'') (day ?c) 2 @ '' '') (hour ?c) 2 @ '':'') (minute ?c) 2
                @ '':'') (second ?c) 2)"
    using itoa_no_paren [OF n(6) 5, of 2] by simp
  then have dot: "CHR ''('' \<notin> set (itoa (itoa (itoa (itoa (itoa (itoa [] (year ?c) 4 @ ''/'')
                (month ?c) 2 @ ''/'') (day ?c) 2 @ '' '') (hour ?c) 2 @ '':'') (minute ?c) 2
                @ '':'') (second ?c) 2 @ ''.'')"
    by simp
  have 7: "CHR ''('' \<notin> set (itoa (itoa (itoa (itoa (itoa (itoa (itoa [] (year ?c) 4 @ ''/'')
                (month ?c) 2 @ ''/'') (day ?c) 2 @ '' '') (hour ?c) 2 @ '':'') (minute ?c) 2
                @ '':'') (second ?c) 2 @ ''.'') (goDiv (nanosecond ?c) 1000) 6)"
    by (rule itoa_no_paren [OF n(7) dot])
  from 6 7 show ?thesis
    by (simp add: formatTime_def Let_def)
qed

lemma itoa_loop_length:
  "1 \<le> k \<Longrightarrow> i < 10 ^ k \<Longrightarrow> wid \<le> int k \<Longrightarrow> length (itoa_loop i wid b) \<le> length b + k"
proof (induction i wid b arbitrary: k rule: itoa_loop.induct)
  case (1 i wid b)
  show ?case
  proof (cases "10 \<le> i \<or> 1 < wid")
    case True
    have k2: "2 \<le> k"
    proof (rule ccontr)
      assume "\<not> 2 \<le> k"
      with 1(2) have "k = 1" by simp
      with 1(3,4) True show False by simp
    qed
    then obtain j where j: "k = Suc j" and j1: "1 \<le> j" by (cases k) auto
    have q: "goDiv i 10 < 10 ^ j"
    proof (cases "0 \<le> i")
      case True
      from 1(3) j have "i < 10 * 10 ^ j" by simp
      then have "i div 10 < 10 ^ j" by simp
      with True show ?thesis by (simp add: goDiv_nonneg)
    next
      case False
      then have "goDiv i 10 = - (\<bar>i\<bar> div 10)" by (simp add: goDiv_def)
      moreover have "(0::int) < 10 ^ j" by simp
      moreover have "0 \<le> \<bar>i\<bar> div 10" by simp
      ultimately show ?thesis by linarith
    qed
    have w: "wid - 1 \<le> int j" using 1(4) j by simp
    from 1(1) [OF True refl j1 q w] j show ?thesis
      unfolding itoa_loop_step [OF True] by simp
  next
    case False
    with 1(2) show ?thesis
      unfolding itoa_loop_stop [OF False] by simp
  qed
qed

lemma itoa_fits:
  "i < 2 ^ 63 \<Longrightarrow> wid \<le> 20 \<Longrightarrow> length (itoa_loop i wid []) \<le> 20"
proof -
  assume a: "i < 2 ^ 63" and w: "wid \<le> 20"
  have "(2::int) ^ 63 < 10 ^ 20" by simp
  with a have "i < 10 ^ 20" by simp
  from itoa_loop_length [OF _ this, of wid "[]"] w show ?thesis by simp
qed

subsection \<open>The line formatter: the width of the level field\<close>

lemma first_cases:
  "first c = 0xF0 \<or> first c = 0xF1 \<or> first c = 0x02 \<or> first c = 0x13 \<or> first c = 0x23 \<or>
   first c = 0x03 \<or> first c = 0x34 \<or> first c = 0x04 \<or> first c = 0x44"
  by (simp add: first_def)

lemma runeSize_tailSize:
  "runeSize c rest =
     (if c < 0x80 \<or> first c = 0xF1 then 1
      else tailSize (first c mod 8) (fst (acceptRanges (first c div 16)))
             (snd (acceptRanges (first c div 16))) rest)"
  by (simp add: runeSize_def tailSize_def Let_def split: prod.splits)

lemma tailSize_bounds:
  "2 \<le> sz \<Longrightarrow> 1 \<le> tailSize sz lo hi rest \<and> tailSize sz lo hi rest \<le> 1 + length rest"
  by (auto simp: tailSize_def Suc_le_eq)

lemma tailSize_append_spaces:
  assumes "sz = 2 \<or> sz = 3 \<or> sz = 4" and "32 < lo"
  shows "tailSize sz lo hi (rest @ replicate n 32) = tailSize sz lo hi rest"
proof (cases "length rest")
  case 0
  then show ?thesis using assms by (cases n; cases "n - 1"; cases "n - 2") (auto simp: tailSize_def)
next
  case (Suc m)
  note l1 = this
  then obtain a r1 where r: "rest = a # r1" by (cases rest) auto
  show ?thesis
  proof (cases r1)
    case Nil
    with r assms show ?thesis by (cases n; cases "n - 1") (auto simp: tailSize_def)
  next
    case (Cons b r2)
    note c1 = this
    show ?thesis
    proof (cases r2)
      case Nil
      with r c1 assms show ?thesis by (cases n) (auto simp: tailSize_def)
    next
      case (Cons d r3)
      with r c1 assms show ?thesis by (auto simp: tailSize_def)
    qed
  qed
qed

lemma first_sizes:
  "\<not> c < 0x80 \<Longrightarrow> first c \<noteq> 0xF1 \<Longrightarrow>
     (first c mod 8 = 2 \<or> first c mod 8 = 3 \<or> first c mod 8 = 4) \<and>
     32 < fst (acceptRanges (first c div 16))"
  using first_cases [of c] by (elim disjE) (simp_all add: acceptRanges_def first_def split: if_splits)

lemma runeSize_append_spaces:
  "runeSize c (rest @ replicate n 32) = runeSize c rest"
  using first_sizes [of c] tailSize_append_spaces
  by (simp add: runeSize_tailSize)

lemma runeSize_bounds: "1 \<le> runeSize c rest \<and> runeSize c rest \<le> 1 + length rest"
  using first_sizes [of c] tailSize_bounds [of "first c mod 8"]
  by (auto simp: runeSize_tailSize)

lemma RuneCountInString_spaces: "RuneCountInString (replicate n (CHR '' '')) = n"
  by (induction n) (simp_all add: runeSize_def)

lemma RuneCountInString_append_spaces:
  "RuneCountInString (s @ replicate n (CHR '' '')) = RuneCountInString s + n"
proof (induction s rule: RuneCountInString.induct)
  case 1
  show ?case by (simp add: RuneCountInString_spaces)
next
  case (2 c cs)
  let ?k = "runeSize (of_char c) (map of_char cs) - 1"
  have k: "runeSize (of_char c) (map of_char (cs @ replicate n (CHR '' ''))) - 1 = ?k"
    using runeSize_append_spaces [of "of_char c" "map of_char cs" n] by simp
  have "?k \<le> length cs"
    using runeSize_bounds [of "of_char c" "map of_char cs"] by (simp del: One_nat_def) arith
  then have "drop ?k (cs @ replicate n (CHR '' '')) = drop ?k cs @ replicate n (CHR '' '')"
    by simp
  with 2 k show ?case by simp
qed

lemma RuneCountInString_padRight:
  "RuneCountInString (padRight wid s) = max wid (RuneCountInString s)"
  by (simp add: padRight_def RuneCountInString_append_spaces)

lemma RuneCountInString_le: "RuneCountInString s \<le> length s"
proof (induction s rule: RuneCountInString.induct)
  case 1
  show ?case by simp
next
  case (2 c cs)
  have "length (drop (runeSize (of_char c) (map of_char cs) - 1) cs) \<le> length cs"
    by simp
  with 2 show ?case by simp
qed

subsection \<open>The line formatter: the component\<close>

lemma count_occ_skip:
  "c \<notin> set xs \<Longrightarrow> count_occ (c # p) (xs @ ys) = count_occ (c # p) ys"
  by (induction xs) auto

lemma count_occ_none:
  assumes "p \<noteq> []" and "last p \<notin> set (drop (length p - 1) t)"
  shows "count_occ p t = 0"
  using assms(2)
proof (induction t)
  case Nil
  with assms(1) show ?case by simp
next
  case (Cons c cs)
  have n: "\<not> prefix p (c # cs)"
  proof
    assume "prefix p (c # cs)"
    then obtain zs where z: "c # cs = p @ zs" by (auto simp: prefix_def)
    obtain bs l where "p = bs @ [l]"
      using assms(1) by (cases p rule: rev_cases) auto
    then have "drop (length p - 1) (p @ zs) = last p # zs"
      by simp
    with Cons.prems z show False by simp
  qed
  have "set (drop (length p - 1) cs) \<subseteq> set (drop (length p - 1) (c # cs))"
  proof (cases "length p - 1")
    case 0
    then show ?thesis by auto
  next
    case (Suc n)
    have "set (drop (Suc n) cs) \<subseteq> set (drop n cs)"
      by (rule set_drop_subset_set_drop) simp
    with Suc show ?thesis by simp
  qed
  with Cons n show ?case by auto
qed

lemma count_occ_once:
  assumes "CHR ''('' \<notin> set a" and "CHR '')'' \<notin> set r"
  shows "count_occ (''('' @ c @ '')'') (a @ ''('' @ c @ '')'' @ '' '' @ r) = 1"
proof -
  have "count_occ (''('' @ c @ '')'') (c @ '')'' @ '' '' @ r) = 0"
    using assms(2) by (intro count_occ_none) simp_all
  then have "count_occ (''('' @ c @ '')'') (''('' @ c @ '')'' @ '' '' @ r) = 1"
    by simp
  with assms(1) show ?thesis
    using count_occ_skip [of "CHR ''(''" a "c @ '')''" "''('' @ c @ '')'' @ '' '' @ r"] by simp
qed

lemma lineMessage_no_close:
  "CHR '')'' \<notin> set msg \<Longrightarrow> CHR '')'' \<notin> set (lineMessage msg)"
  by (simp add: lineMessage_def)

text \<open>
  Claim C6, first as the code contradicts it: with the component \<open>a\<close> and the message
  \<open>(a)\<close>, the output contains \<open>(a)\<close> twice.
\<close>

theorem component_twice_counterexample:
  "Event.Component evtParen = ''a'' \<and>
   LineFormat_Format defFormatter evtParen = ''2023/07/20 09:05:59 INFO  (a) (a)'' @ [CHR 0x0A] \<and>
   count_occ ''(a)'' (LineFormat_Format defFormatter evtParen) = 2"
  by code_simp

text \<open>
  Claim C6, amended. For an event with a non-empty component, the output is the time
  stamp, a space, the level field, a space, the component in parentheses, a space and the
  message: \<open>Format\<close> writes the component in parentheses once, between the level field
  and the message. The level field is the level name followed by spaces up to a width of
  five runes, and the whole name when it is longer. The parenthesised component occurs
  nowhere else in the output when the fields of the time are not negative, the level name
  has no opening parenthesis and the message no closing one.
\<close>

theorem line_format_layout:
  assumes "Event.Component evt \<noteq> []"
  shows "LineFormat_Format lf evt =
           formatTime (Time evt) (UTC lf) (ShowMircoseconds lf) @ '' ''
             @ padRight 5 (Name (Level evt)) @ '' ''
             @ ''('' @ Event.Component evt @ '')'' @ '' '' @ lineMessage (Message evt) \<and>
         padRight 5 (Name (Level evt)) =
           Name (Level evt) @ replicate (5 - RuneCountInString (Name (Level evt))) (CHR '' '') \<and>
         RuneCountInString (padRight 5 (Name (Level evt)))
           = max 5 (RuneCountInString (Name (Level evt))) \<and>
         (nonNegativeClock (if UTC lf then utcClock (Time evt) else localClock (Time evt)) \<and>
          CHR ''('' \<notin> set (Name (Level evt)) \<and> CHR '')'' \<notin> set (Message evt) \<longrightarrow>
            count_occ (''('' @ Event.Component evt @ '')'') (LineFormat_Format lf evt) = 1)"
proof (intro conjI impI)
  show eq: "LineFormat_Format lf evt =
           formatTime (Time evt) (UTC lf) (ShowMircoseconds lf) @ '' ''
             @ padRight 5 (Name (Level evt)) @ '' ''
             @ ''('' @ Event.Component evt @ '')'' @ '' '' @ lineMessage (Message evt)"
    using assms by (simp add: LineFormat_Format_eq linePrefix_def)
  show "padRight 5 (Name (Level evt)) =
           Name (Level evt) @ replicate (5 - RuneCountInString (Name (Level evt))) (CHR '' '')"
    by (simp add: padRight_def)
  show "RuneCountInString (padRight 5 (Name (Level evt)))
           = max 5 (RuneCountInString (Name (Level evt)))"
    by (rule RuneCountInString_padRight)
  assume a: "nonNegativeClock (if UTC lf then utcClock (Time evt) else localClock (Time evt)) \<and>
          CHR ''('' \<notin> set (Name (Level evt)) \<and> CHR '')'' \<notin> set (Message evt)"
  let ?a = "formatTime (Time evt) (UTC lf) (ShowMircoseconds lf) @ '' ''
             @ padRight 5 (Name (Level evt)) @ '' ''"
  have "CHR ''('' \<notin> set ?a"
    using a formatTime_no_paren [of "UTC lf" "Time evt" "ShowMircoseconds lf"]
    by (simp add: padRight_def)
  moreover have "CHR '')'' \<notin> set (lineMessage (Message evt))"
    using a by (simp add: lineMessage_no_close)
  ultimately have "count_occ (''('' @ Event.Component evt @ '')'')
      (?a @ ''('' @ Event.Component evt @ '')'' @ '' '' @ lineMessage (Message evt)) = 1"
    by (rule count_occ_once)
  then show "count_occ (''('' @ Event.Component evt @ '')'') (LineFormat_Format lf evt) = 1"
    by (simp add: eq)
qed

theorem line_format_layout_witness:
  "Event.Component evtServer \<noteq> [] \<and>
   nonNegativeClock (if UTC defFormatter then utcClock (Time evtServer)
                     else localClock (Time evtServer)) \<and>
   CHR ''('' \<notin> set (Name (Level evtServer)) \<and> CHR '')'' \<notin> set (Message evtServer) \<and>
   LineFormat_Format defFormatter evtServer
     = ''2023/07/20 09:05:59 INFO  (server) started'' @ [CHR 0x0A] \<and>
   count_occ ''(server)'' (LineFormat_Format defFormatter evtServer) = 1"
proof -
  have a: "Event.Component evtServer \<noteq> []"
    by (simp add: evtServer_def)
  have b: "nonNegativeClock (if UTC defFormatter then utcClock (Time evtServer)
                     else localClock (Time evtServer))"
    by (simp add: evtServer_def defFormatter_def exampleTime_def nonNegativeClock_def)
  have c: "CHR ''('' \<notin> set (Name (Level evtServer)) \<and> CHR '')'' \<notin> set (Message evtServer)"
    by (simp add: evtServer_def LvInfo_def)
  have d: "Event.Component evtServer = ''server''"
    by (simp add: evtServer_def)
  have e: "LineFormat_Format defFormatter evtServer
     = ''2023/07/20 09:05:59 INFO  (server) started'' @ [CHR 0x0A]"
    by code_simp
  from line_format_layout [OF a, of defFormatter] a b c have
    "count_occ (''('' @ Event.Component evtServer @ '')'')
       (LineFormat_Format defFormatter evtServer) = 1"
    by blast
  with a b c e show ?thesis by (simp add: d)
qed

subsection \<open>\<open>Copy\<close> with options that add no handler\<close>

lemma sevKey_not_LvAll: "sevKey lv \<noteq> Severity LvAll"
  by (simp add: sevKey_def minPossibleSeverity_def MinInt_def LvAll_def MaxInt_def)

lemma sevKey_bucketLevel: "lv \<noteq> Severity LvAll \<Longrightarrow> sevKey (bucketLevel lv) = lv"
  by (simp add: sevKey_def bucketLevel_def minPossibleSeverity_def MinInt_def LvAll_def MaxInt_def
      LvFatal_def LvError_def LvWarn_def LvInfo_def LvDebug_def LvTrace_def)

lemma registry_ok_empty: "registry_ok Map.empty"
  by (simp add: registry_ok_def)

lemma registry_ok_AddHandler:
  "registry_ok (h lg) \<Longrightarrow> registry_ok (h (AddHandler lv x lg))"
  using sevKey_not_LvAll [of lv] by (auto simp: registry_ok_def h_AddHandler)

lemma registry_ok_fold:
  "registry_ok (h lg) \<Longrightarrow> registry_ok (h (foldl (\<lambda>lg x. AddHandler lv x lg) lg xs))"
  by (induction xs arbitrary: lg) (simp_all add: registry_ok_AddHandler)

lemma registry_ok_fold2:
  "registry_ok (h lg) \<Longrightarrow>
   registry_ok (h (foldl (\<lambda>lg lv. foldl (\<lambda>lg x. AddHandler lv x lg) lg (g lv)) lg ks))"
  by (induction ks arbitrary: lg) (simp_all add: registry_ok_fold)

lemma registry_ok_New: "registry_ok (h (New E ks p))"
  by (simp add: New_alt registry_ok_fold2 registry_ok_empty)

lemma constructed_registry_ok: "constructed lg \<Longrightarrow> registry_ok (h lg)"
  by (induction rule: constructed.induct) (simp_all add: registry_ok_New registry_ok_AddHandler)

lemma mapIndex_nonempty_dom: "mapIndex m k \<noteq> [] \<Longrightarrow> k \<in> dom m"
  by (cases "m k") (auto simp: mapIndex_def)

lemma registry_ok_mapIndex_eq:
  assumes "registry_ok a" and "registry_ok b" and "\<And>k. mapIndex a k = mapIndex b k"
  shows "a = b"
proof
  fix k
  show "a k = b k"
  proof (cases "a k")
    case None
    then have "mapIndex b k = []" using assms(3) [of k] by (simp add: mapIndex_def)
    with assms(2) None show ?thesis
      by (cases "b k") (auto simp: registry_ok_def mapIndex_def)
  next
    case (Some xs)
    with assms(1) have "xs \<noteq> []" by (auto simp: registry_ok_def)
    with Some assms(3) [of k] show ?thesis
      by (cases "b k") (auto simp: mapIndex_def)
  qed
qed

lemma concat_map_single:
  "distinct xs \<Longrightarrow> (\<And>x. x \<in> set xs \<Longrightarrow> x \<noteq> a \<Longrightarrow> g x = []) \<Longrightarrow>
   concat (map g xs) = (if a \<in> set xs then g a else [])"
  by (induction xs) auto

lemma concat_map_none: "(\<And>x. x \<in> set xs \<Longrightarrow> g x = []) \<Longrightarrow> concat (map g xs) = []"
  by (induction xs) auto

lemma merge_current:
  "mapIndex (foldl (\<lambda>m (entry_h, entry_lv).
                     m(bucketLevel entry_lv \<mapsto> mapIndex m (bucketLevel entry_lv) @ [entry_h]))
               m current) L
   = mapIndex m L @ map fst (filter (\<lambda>(x, lv). bucketLevel lv = L) current)"
  by (induction current arbitrary: m) (auto simp: mapIndex_upd Let_def)

lemma current_filter:
  "map fst (filter (\<lambda>(x, lv). bucketLevel lv = L)
      (concat (map (\<lambda>lv. map (\<lambda>x. (x, lv)) (B lv)) ks)))
   = concat (map (\<lambda>lv. if bucketLevel lv = L then B lv else []) ks)"
  by (induction ks) (auto simp: filter_map comp_def)

lemma merge_added_nothing:
  "(\<And>lv. mapIndex A lv = []) \<Longrightarrow>
   mapIndex (foldl (\<lambda>m lv. m(lv \<mapsto> mapIndex m lv @ mapIndex A lv)) m ks) L = mapIndex m L"
  by (induction ks arbitrary: m) (simp_all add: mapIndex_upd)

lemma if_dom_empty: "(if dom m \<noteq> {} then m else Map.empty) = m"
  by auto

lemma Handlers_mergedOptions_noop:
  assumes "\<And>lv. mapIndex (Handlers p) lv = []"
  shows "mapIndex (Handlers (mergedOptions ks1 ks2 ks3 lg p)) L
           = concat (map (\<lambda>lv. if bucketLevel lv = L then mapIndex (h lg) lv else []) ks1)"
proof -
  have a: "concat (map (\<lambda>lv. mapIndex (Handlers p) lv) ks2) = []"
    using assms by (simp add: concat_map_none)
  show ?thesis
    unfolding mergedOptions_def Let_def a if_dom_empty
    by (simp add: merge_added_nothing [OF assms] merge_current current_filter)
qed

lemma h_lgTwo: "h lgTwo = [0 \<mapsto> [1], minPossibleSeverity \<mapsto> [2]]"
  by (simp add: lgTwo_def h_AddHandler h_lgInfo sevKey_def mapIndex_def minPossibleSeverity_def
      MinInt_def)

lemma Handlers_merged_lgTwo:
  "Handlers (mergedOptions [0, minPossibleSeverity] [] [] lgTwo Defaults)
     = [LvInfo \<mapsto> [1], LvAll \<mapsto> [2]]"
  by (simp add: mergedOptions_def Let_def h_lgTwo mapIndex_def bucketLevel_def Defaults_def
      minPossibleSeverity_def MinInt_def LvInfo_def LvAll_def MaxInt_def LvFatal_def LvError_def
      LvWarn_def)

text \<open>
  Claim C8. Let \<open>lg\<close> be a Logger built by \<open>New\<close>, \<open>AddHandler\<close> and \<open>Copy\<close>, and
  let the options \<open>p\<close> hold no handler (its map of handlers is nil, empty, or has only
  empty slices). Then the registry of \<open>lg.Copy(p)\<close> is the registry of \<open>lg\<close>: the same
  buckets, with the same handler references in the same order, whatever the orders in
  which the loops of \<open>Copy\<close> and \<open>New\<close> visit the maps.
\<close>

theorem Copy_noop_keeps_registry:
  assumes c: "constructed lg"
    and n: "\<And>lv. mapIndex (Handlers p) lv = []"
    and r1: "range_order (h lg) ks1"
    and r4: "range_order (Handlers (mergedOptions ks1 ks2 ks3 lg p)) ks4"
  shows "h (Copy E ks1 ks2 ks3 ks4 lg p) = h lg"
proof (rule registry_ok_mapIndex_eq)
  show "registry_ok (h (Copy E ks1 ks2 ks3 ks4 lg p))"
    by (simp add: Copy_def registry_ok_New)
  show ok: "registry_ok (h lg)"
    using c by (rule constructed_registry_ok)
  fix k
  let ?M = "Handlers (mergedOptions ks1 ks2 ks3 lg p)"
  let ?B = "\<lambda>lv. mapIndex (h lg) lv"
  have M: "\<And>L. mapIndex ?M L = concat (map (\<lambda>lv. if bucketLevel lv = L then ?B lv else []) ks1)"
    by (rule Handlers_mergedOptions_noop [OF n])
  have d1: "distinct ks1" and s1: "set ks1 = dom (h lg)"
    using r1 by (simp_all add: range_order_def)
  have d4: "distinct ks4" and s4: "set ks4 = dom ?M"
    using r4 by (simp_all add: range_order_def)
  have ne: "\<And>lv. lv \<in> set ks1 \<Longrightarrow> lv \<noteq> Severity LvAll"
    using ok s1 by (auto simp: registry_ok_def)
  have out: "mapIndex (h (Copy E ks1 ks2 ks3 ks4 lg p)) k
               = concat (map (\<lambda>L. if sevKey L = k then mapIndex ?M L else []) ks4)"
    by (simp add: Copy_def mapIndex_New)
  show "mapIndex (h (Copy E ks1 ks2 ks3 ks4 lg p)) k = mapIndex (h lg) k"
  proof (cases "k \<in> set ks1")
    case False
    then have b: "?B k = []" using s1 by (auto simp: mapIndex_def split: option.splits)
    have "\<And>L. L \<in> set ks4 \<Longrightarrow> (if sevKey L = k then mapIndex ?M L else []) = []"
    proof -
      fix L
      have "sevKey L = k \<Longrightarrow> mapIndex ?M L = []"
        unfolding M
      proof (rule concat_map_none)
        fix lv
        assume "sevKey L = k" and "lv \<in> set ks1"
        with False ne [of lv] sevKey_bucketLevel [of lv]
        show "(if bucketLevel lv = L then ?B lv else []) = []" by auto
      qed
      then show "(if sevKey L = k then mapIndex ?M L else []) = []" by simp
    qed
    then show ?thesis unfolding out using b by (simp add: concat_map_none)
  next
    case True
    then have kne: "k \<noteq> Severity LvAll" by (rule ne)
    have inner: "mapIndex ?M (bucketLevel k) = ?B k"
    proof -
      have "concat (map (\<lambda>lv. if bucketLevel lv = bucketLevel k then ?B lv else []) ks1)
              = (if k \<in> set ks1 then (if bucketLevel k = bucketLevel k then ?B k else []) else [])"
      proof (rule concat_map_single [OF d1])
        fix lv
        assume "lv \<in> set ks1" and "lv \<noteq> k"
        with ne [of lv] kne sevKey_bucketLevel [of lv] sevKey_bucketLevel [of k]
        show "(if bucketLevel lv = bucketLevel k then ?B lv else []) = []" by auto
      qed
      with True show ?thesis unfolding M by simp
    qed
    have "concat (map (\<lambda>L. if sevKey L = k then mapIndex ?M L else []) ks4)
            = (if bucketLevel k \<in> set ks4
               then (if sevKey (bucketLevel k) = k then mapIndex ?M (bucketLevel k) else [])
               else [])"
    proof (rule concat_map_single [OF d4])
      fix L
      assume "L \<in> set ks4" and L: "L \<noteq> bucketLevel k"
      have "sevKey L = k \<Longrightarrow> mapIndex ?M L = []"
        unfolding M
      proof (rule concat_map_none)
        fix lv
        assume "sevKey L = k" and "lv \<in> set ks1"
        with L ne [of lv] sevKey_bucketLevel [of lv]
        show "(if bucketLevel lv = L then ?B lv else []) = []" by auto
      qed
      then show "(if sevKey L = k then mapIndex ?M L else []) = []" by simp
    qed
    also have "\<dots> = (if bucketLevel k \<in> set ks4 then ?B k else [])"
      using sevKey_bucketLevel [OF kne] inner by simp
    also have "\<dots> = ?B k"
    proof (cases "?B k = []")
      case True
      then show ?thesis by simp
    next
      case False
      with inner have "bucketLevel k \<in> dom ?M"
        by (metis mapIndex_nonempty_dom)
      with s4 show ?thesis by simp
    qed
    finally show ?thesis unfolding out .
  qed
qed

theorem Copy_noop_keeps_registry_witness:
  "constructed lgTwo \<and> mapIndex (Handlers (Defaults :: (string, string, nat) Options)) LvInfo = [] \<and>
   range_order (h lgTwo) [0, minPossibleSeverity] \<and>
   range_order (Handlers (mergedOptions [0, minPossibleSeverity] [] [] lgTwo Defaults))
     [LvInfo, LvAll] \<and>
   h (Copy stringParam [0, minPossibleSeverity] [] [] [LvInfo, LvAll] lgTwo Defaults)
     = [0 \<mapsto> [1], minPossibleSeverity \<mapsto> [2]]"
proof -
  have c: "constructed lgTwo"
    unfolding lgTwo_def lgInfo_def by (intro con_AddHandler con_New)
  have n: "\<And>lv. mapIndex (Handlers (Defaults :: (string, string, nat) Options)) lv = []"
    by (simp add: Defaults_def)
  have r1: "range_order (h lgTwo) [0, minPossibleSeverity]"
    by (auto simp: h_lgTwo range_order_def minPossibleSeverity_def MinInt_def)
  have r4: "range_order (Handlers (mergedOptions [0, minPossibleSeverity] [] [] lgTwo Defaults))
     [LvInfo, LvAll]"
    unfolding Handlers_merged_lgTwo
    by (auto simp: range_order_def LvInfo_def LvAll_def)
  from Copy_noop_keeps_registry [OF c n r1 r4, of stringParam] c n r1 r4
  show ?thesis by (simp add: h_lgTwo)
qed

end
